(* ===== verification/Go_Prelude.thy ===== *)
theory Go_Prelude
  imports Main "HOL-Library.Word" "HOL-Library.Multiset" "HOL-Library.Sublist"
begin

text \<open>
  The part of Go and of its standard library that the program uses, shared by every
  component theory: run-time panics as values, fixed-width integers, \<^verbatim>\<open>time.Duration\<close> and
  \<^verbatim>\<open>time.Time\<close>, the \<^verbatim>\<open>strings\<close>, \<^verbatim>\<open>encoding/hex\<close>, \<^verbatim>\<open>strconv\<close> and \<^verbatim>\<open>math/rand/v2\<close>
  functions the sources call, and the generic lemmas about lists and maps the component
  proofs share.  Collections: \<open>go_time\<close> unfolds the time operations.
\<close>

unbundle bit_operations_syntax

named_theorems go_time \<open>unfolding of durations and instants\<close>

section \<open>Panics and results\<close>

text \<open>
  A Go function that can panic returns \<open>panic + 'a\<close>; \<open>Inl\<close> is the panic.  The
  constructors are the run-time errors the sources can raise.
\<close>

datatype panic =
    DivideByZero
  | NegativeShift
  | SliceOutOfRange
  | NegativeLen
  | ExplicitPanic string

type_synonym 'a res = "panic + 'a"

definition res_bind :: "'a res \<Rightarrow> ('a \<Rightarrow> 'b res) \<Rightarrow> 'b res" where
  "res_bind r f = (case r of Inl p \<Rightarrow> Inl p | Inr x \<Rightarrow> f x)"

lemma res_bind_simps [simp]:
  "res_bind (Inl p) f = Inl p"
  "res_bind (Inr x) f = f x"
  by (simp_all add: res_bind_def)

lemma res_bind_Inr_iff: "res_bind r f = Inr y \<longleftrightarrow> (\<exists>x. r = Inr x \<and> f x = Inr y)"
  by (cases r) simp_all

section \<open>Machine integers\<close>

type_synonym u8 = "8 word"
type_synonym u64 = "64 word"
type_synonym bytes = "u8 list"

text \<open>
  Go's \<^verbatim>\<open>int\<close>, \<^verbatim>\<open>int64\<close> and \<^verbatim>\<open>time.Duration\<close> are 64-bit two's complement on the platforms
  the program is built for.  They are HOL integers here, and \<open>wrap64\<close> is the wrap-around
  of an arithmetic result.
\<close>

definition wrap64 :: "int \<Rightarrow> int" where
  "wrap64 x = (x + 2 ^ 63) mod 2 ^ 64 - 2 ^ 63"

definition in_int64 :: "int \<Rightarrow> bool" where
  "in_int64 x \<longleftrightarrow> - (2 ^ 63) \<le> x \<and> x < 2 ^ 63"

lemma wrap64_id [simp]: "in_int64 x \<Longrightarrow> wrap64 x = x"
  unfolding wrap64_def in_int64_def by (subst mod_pos_pos_trivial) auto

lemma wrap64_in_int64 [simp, intro]: "in_int64 (wrap64 x)"
proof -
  have "0 \<le> (x + 2 ^ 63) mod 2 ^ 64" and "(x + 2 ^ 63) mod 2 ^ 64 < 2 ^ 64"
    by simp_all
  then show ?thesis unfolding wrap64_def in_int64_def by (simp add: algebra_simps)
qed

section \<open>Durations and instants\<close>

text \<open>
  A \<^verbatim>\<open>time.Duration\<close> is a number of nanoseconds; a \<^verbatim>\<open>time.Time\<close> is the nanoseconds since
  the Unix epoch.  \<^verbatim>\<open>Time.Sub\<close> saturates at the bounds of a Duration, as its documentation
  says; \<^verbatim>\<open>Time.Add\<close> does not (its range is 584 billion years).
\<close>

type_synonym duration = int
type_synonym time = int

definition Millisecond :: duration where [go_time]: "Millisecond = 1000000"
definition Second :: duration where [go_time]: "Second = 1000000000"
definition Minute :: duration where [go_time]: "Minute = 60000000000"

definition time_add :: "time \<Rightarrow> duration \<Rightarrow> time" where [go_time]: "time_add t d = t + d"

definition time_before :: "time \<Rightarrow> time \<Rightarrow> bool" where [go_time]: "time_before t u \<longleftrightarrow> t < u"

definition time_sub :: "time \<Rightarrow> time \<Rightarrow> duration" where
  "time_sub t u = max (- (2 ^ 63)) (min (2 ^ 63 - 1) (t - u))"

lemma time_sub_exact: "in_int64 (t - u) \<Longrightarrow> time_sub t u = t - u"
  by (auto simp: time_sub_def in_int64_def)

lemma time_sub_range: "in_int64 (time_sub t u)"
  by (auto simp: time_sub_def in_int64_def)

lemma time_sub_mono: "t \<le> t' \<Longrightarrow> time_sub t u \<le> time_sub t' u"
  by (auto simp: time_sub_def)

text \<open>Go's integer division truncates towards zero; \<^verbatim>\<open>Duration.Milliseconds\<close> is such a division.\<close>

definition go_div :: "int \<Rightarrow> int \<Rightarrow> int" where
  "go_div a b = sgn a * sgn b * (\<bar>a\<bar> div \<bar>b\<bar>)"

lemma go_div_nonneg: "0 \<le> a \<Longrightarrow> 0 < b \<Longrightarrow> go_div a b = a div b"
  by (cases "a = 0") (simp_all add: go_div_def)

definition Milliseconds :: "duration \<Rightarrow> int" where
  "Milliseconds d = go_div d 1000000"

section \<open>Strings\<close>

text \<open>
  A Go string is a byte sequence, a HOL \<open>string\<close> here.  \<open>str_slice_to s n\<close> is \<^verbatim>\<open>s[:n]\<close>, which
  panics when the string is shorter; \<open>str_cut\<close> is \<^verbatim>\<open>strings.Cut\<close> and \<open>str_contains\<close> is
  \<^verbatim>\<open>strings.Contains\<close>.
\<close>

type_synonym peer_id = string

definition str_slice_to :: "string \<Rightarrow> nat \<Rightarrow> string res" where
  "str_slice_to s n = (if length s < n then Inl SliceOutOfRange else Inr (take n s))"

fun str_cut :: "string \<Rightarrow> string \<Rightarrow> string \<times> string \<times> bool" where
  "str_cut sep [] = ([], [], sep = [])"
| "str_cut sep (c # s) =
     (if prefix sep (c # s) then ([], drop (length sep) (c # s), True)
      else (case str_cut sep s of (before, after, found) \<Rightarrow> (c # before, after, found)))"

fun str_contains :: "string \<Rightarrow> string \<Rightarrow> bool" where
  "str_contains [] sub = (sub = [])"
| "str_contains (c # s) sub = (prefix sub (c # s) \<or> str_contains s sub)"

lemma str_contains_iff: "str_contains s sub \<longleftrightarrow> sublist sub s"
  by (induction s) (auto simp: sublist_Cons_right)

lemma str_cut_found:
  "str_cut sep s = (before, after, True) \<Longrightarrow> s = before @ sep @ after"
proof (induction s arbitrary: before)
  case (Cons c s)
  show ?case
  proof (cases "prefix sep (c # s)")
    case True
    then obtain z where z: "c # s = sep @ z" by (auto elim: prefixE)
    from True Cons.prems have "before = []" and "after = drop (length sep) (c # s)" by simp_all
    with z show ?thesis by simp
  next
    case False
    with Cons show ?thesis by (auto split: prod.splits)
  qed
qed simp

lemma str_cut_not_found: "str_cut sep s = (before, after, False) \<Longrightarrow> before = s \<and> after = []"
  by (induction s arbitrary: before) (auto split: if_splits prod.splits)

lemma str_cut_before_prefix: "str_cut sep s = (before, after, found) \<Longrightarrow> prefix before s"
  by (cases found) (auto dest: str_cut_found str_cut_not_found)

lemma str_cut_found_iff: "snd (snd (str_cut sep s)) \<longleftrightarrow> str_contains s sep"
  by (induction s) (auto split: prod.splits)

lemma prefix_single_Cons: "prefix [x] (c # s) \<longleftrightarrow> c = x"
  by auto

lemma str_cut_single_before: "str_cut [x] s = (before, after, f) \<Longrightarrow> x \<notin> set before"
  by (induction s arbitrary: before) (auto simp: prefix_single_Cons split: if_splits prod.splits)

lemma str_cut_single_append:
  "x \<notin> set p \<Longrightarrow> str_cut [x] (p @ [x] @ q) = (p, q, True)"
  by (induction p) auto

lemma str_cut_single_absent: "x \<notin> set s \<Longrightarrow> str_cut [x] s = (s, [], False)"
  by (induction s) auto

text \<open>\<^verbatim>\<open>%d\<close>: the decimal digits of a number, most significant first, with a sign if negative.\<close>

definition digit_char :: "nat \<Rightarrow> char" where
  "digit_char d = ''0123456789'' ! d"

fun dec_nat :: "nat \<Rightarrow> string" where
  "dec_nat n = (if n < 10 then [digit_char n] else dec_nat (n div 10) @ [digit_char (n mod 10)])"

declare dec_nat.simps [simp del]

definition dec_int :: "int \<Rightarrow> string" where
  "dec_int i = (if i < 0 then ''-'' @ dec_nat (nat (- i)) else dec_nat (nat i))"

text \<open>Reading the digits back gives the number, so the decimal form determines it.\<close>

fun read_digit :: "char \<Rightarrow> nat" where
  "read_digit c = of_char c - 48"

definition read_dec :: "string \<Rightarrow> nat" where
  "read_dec s = foldl (\<lambda>n c. 10 * n + read_digit c) 0 s"

lemma lt10_cases: "d < (10::nat) \<Longrightarrow> d \<in> {0,1,2,3,4,5,6,7,8,9}"
  by auto

lemma read_digit_char: "d < 10 \<Longrightarrow> read_digit (digit_char d) = d"
  by (drule lt10_cases) (auto simp: digit_char_def)

lemma read_dec_nat [simp]: "read_dec (dec_nat n) = n"
proof (induction n rule: dec_nat.induct)
  case (1 n)
  show ?case
  proof (cases "n < 10")
    case True
    then show ?thesis by (subst dec_nat.simps) (simp add: read_dec_def read_digit_char del: read_digit.simps)
  next
    case False
    then have "read_dec (dec_nat n) = 10 * read_dec (dec_nat (n div 10)) + read_digit (digit_char (n mod 10))"
      by (subst dec_nat.simps) (simp add: read_dec_def del: read_digit.simps)
    with 1 False show ?thesis by (simp add: read_digit_char del: read_digit.simps)
  qed
qed

lemma dec_nat_inject [simp]: "dec_nat m = dec_nat n \<longleftrightarrow> m = n"
  by (metis read_dec_nat)

definition is_digit :: "char \<Rightarrow> bool" where
  "is_digit c \<longleftrightarrow> c \<in> set ''0123456789''"

lemma is_digit_digit_char: "d < 10 \<Longrightarrow> is_digit (digit_char d)"
  by (drule lt10_cases) (auto simp: digit_char_def is_digit_def)

lemma dec_nat_digits: "c \<in> set (dec_nat n) \<Longrightarrow> is_digit c"
proof (induction n rule: dec_nat.induct)
  case (1 n)
  then show ?case
    by (subst (asm) (2) dec_nat.simps) (auto simp: is_digit_digit_char split: if_splits)
qed

definition dec_u64 :: "u64 \<Rightarrow> string" where
  "dec_u64 w = dec_nat (unat w)"

lemma dec_u64_inject [simp]: "dec_u64 a = dec_u64 b \<longleftrightarrow> a = b"
  by (simp add: dec_u64_def word_unat_eq_iff)

text \<open>\<^verbatim>\<open>encoding/hex\<close>: lower-case encoding; decoding accepts both cases and reports the first bad byte or an odd length.\<close>

datatype hex_error = InvalidByteError char | ErrLength

definition hex_digit :: "nat \<Rightarrow> char" where
  "hex_digit d = ''0123456789abcdef'' ! d"

definition EncodeToString :: "bytes \<Rightarrow> string" where
  "EncodeToString bs = concat (map (\<lambda>b. [hex_digit (unat b div 16), hex_digit (unat b mod 16)]) bs)"

definition unhex :: "char \<Rightarrow> nat option" where
  "unhex c =
     (let n = of_char c :: nat in
      if 48 \<le> n \<and> n \<le> 57 then Some (n - 48)
      else if 97 \<le> n \<and> n \<le> 102 then Some (n - 87)
      else if 65 \<le> n \<and> n \<le> 70 then Some (n - 55)
      else None)"

fun hex_Decode :: "string \<Rightarrow> hex_error + bytes" where
  "hex_Decode [] = Inr []"
| "hex_Decode [p] = (case unhex p of None \<Rightarrow> Inl (InvalidByteError p) | Some _ \<Rightarrow> Inl ErrLength)"
| "hex_Decode (p # q # s) =
     (case unhex p of
        None \<Rightarrow> Inl (InvalidByteError p)
      | Some a \<Rightarrow>
         (case unhex q of
            None \<Rightarrow> Inl (InvalidByteError q)
          | Some b \<Rightarrow>
             (case hex_Decode s of
                Inl e \<Rightarrow> Inl e
              | Inr bs \<Rightarrow> Inr (word_of_nat (16 * a + b) # bs))))"

lemma lt16_cases: "d < (16::nat) \<Longrightarrow> d \<in> {0,1,2,3,4,5,6,7,8,9,10,11,12,13,14,15}"
  by (simp, presburger)

lemma unhex_hex_digit: "d < 16 \<Longrightarrow> unhex (hex_digit d) = Some d"
  by (drule lt16_cases) (auto simp: hex_digit_def unhex_def)

lemma length_EncodeToString [simp]: "length (EncodeToString bs) = 2 * length bs"
  by (induction bs) (simp_all add: EncodeToString_def)

lemma hex_Decode_Encode [simp]: "hex_Decode (EncodeToString bs) = Inr bs"
proof (induction bs)
  case (Cons b bs)
  have "unat b < 2 ^ LENGTH(8)" by (rule unsigned_less)
  then have "unat b < 256" by simp
  then have "unat b div 16 < 16" by linarith
  with Cons show ?case
    by (simp add: EncodeToString_def unhex_hex_digit)
qed (simp add: EncodeToString_def)

lemma EncodeToString_inject [simp]: "EncodeToString a = EncodeToString b \<longleftrightarrow> a = b"
  by (metis hex_Decode_Encode sum.inject(2))

text \<open>A Go string and its bytes.\<close>

definition str_bytes :: "string \<Rightarrow> bytes" where
  "str_bytes s = map (\<lambda>c. word_of_nat (of_char c)) s"

definition bytes_str :: "bytes \<Rightarrow> string" where
  "bytes_str bs = map (\<lambda>b. char_of (unat b)) bs"

lemma length_str_bytes [simp]: "length (str_bytes s) = length s"
  by (simp add: str_bytes_def)

lemma bytes_str_bytes [simp]: "bytes_str (str_bytes s) = s"
proof -
  have "char_of (unat (word_of_nat (of_char c) :: u8)) = c" for c
    by (simp add: unat_of_nat take_bit_eq_mod)
  then show ?thesis by (simp add: bytes_str_def str_bytes_def comp_def)
qed

text \<open>\<^verbatim>\<open>1 << n\<close> at 64 bits: a negative count panics, bits shifted past the width are lost.\<close>

definition go_shl1 :: "int \<Rightarrow> int res" where
  "go_shl1 n = (if n < 0 then Inl NegativeShift else Inr (wrap64 (2 ^ nat n)))"

section \<open>Maps\<close>

lemma map_le_Some: "m \<subseteq>\<^sub>m m' \<Longrightarrow> m x = Some y \<Longrightarrow> m' x = Some y"
  by (metis domI map_le_def)

section \<open>Shuffling\<close>

text \<open>
  \<^verbatim>\<open>rand.Shuffle\<close> of \<^verbatim>\<open>math/rand/v2\<close>: for \<open>i\<close> from \<open>n - 1\<close> down to \<open>1\<close>, swap position \<open>i\<close> with a
  position drawn from \<open>0..i\<close>.  The draws are the argument \<open>rnd\<close>; reducing them modulo \<open>i + 1\<close>
  gives every sequence of draws and only those.
\<close>

definition list_swap :: "'a list \<Rightarrow> nat \<Rightarrow> nat \<Rightarrow> 'a list" where
  "list_swap xs i j = xs[i := xs ! j, j := xs ! i]"

fun shuffle_from :: "(nat \<Rightarrow> nat) \<Rightarrow> nat \<Rightarrow> 'a list \<Rightarrow> 'a list" where
  "shuffle_from rnd 0 xs = xs"
| "shuffle_from rnd (Suc i) xs = shuffle_from rnd i (list_swap xs (Suc i) (rnd (Suc i) mod Suc (Suc i)))"

definition go_shuffle :: "(nat \<Rightarrow> nat) \<Rightarrow> 'a list \<Rightarrow> 'a list" where
  "go_shuffle rnd xs = shuffle_from rnd (length xs - 1) xs"

lemma length_list_swap [simp]: "length (list_swap xs i j) = length xs"
  by (simp add: list_swap_def)

lemma mset_list_swap: "i < length xs \<Longrightarrow> j < length xs \<Longrightarrow> mset (list_swap xs i j) = mset xs"
  by (simp add: list_swap_def mset_swap)

lemma mset_shuffle_from: "i < length xs \<Longrightarrow> mset (shuffle_from rnd i xs) = mset xs"
proof (induction i arbitrary: xs)
  case (Suc i)
  have "rnd (Suc i) mod Suc (Suc i) < Suc (Suc i)" by (rule mod_less_divisor) simp
  with Suc.prems have "rnd (Suc i) mod Suc (Suc i) < length xs" by linarith
  with Suc show ?case by (simp add: mset_list_swap)
qed simp

lemma mset_go_shuffle [simp]: "mset (go_shuffle rnd xs) = mset xs"
  by (cases xs) (simp_all add: go_shuffle_def mset_shuffle_from)

lemma set_go_shuffle [simp]: "set (go_shuffle rnd xs) = set xs"
  by (rule mset_eq_setD) simp

lemma length_go_shuffle [simp]: "length (go_shuffle rnd xs) = length xs"
  by (rule mset_eq_length) simp

lemma distinct_go_shuffle [simp]: "distinct (go_shuffle rnd xs) = distinct xs"
  by (rule mset_eq_imp_distinct_iff) simp

end
