(* ===== verification/Shared_Peer_Set.thy ===== *)
theory Shared_Peer_Set
  imports Go_Prelude
begin

text \<open>
  \<^verbatim>\<open>node/sharedpeerset.go\<close>: which instance owns each peer.  Every method holds the mutex for its
  whole body, so a concurrent run is a sequence of calls in some order, \<open>sps_run\<close>.  The
  locale \<open>peer_registry\<close> is the contract the clients (PeerFinder, SiblingGater,
  HandleInboundPeers) rely on: ownership, once given, never changes.
\<close>

section \<open>State and operations\<close>

record SharedPeerSet =
  assignments :: "peer_id \<rightharpoonup> string"
  instances :: "string list"
  nextIdx :: u64

definition NewSharedPeerSet :: "string list \<Rightarrow> SharedPeerSet res" where
  "NewSharedPeerSet instanceNames =
     (if length instanceNames = 0
      then Inl (ExplicitPanic ''SharedPeerSet requires at least one instance'')
      else Inr \<lparr>assignments = Map.empty, instances = instanceNames, nextIdx = 0\<rparr>)"

definition AssignOrGet :: "SharedPeerSet \<Rightarrow> peer_id \<Rightarrow> (string \<times> SharedPeerSet) res" where
  "AssignOrGet s pid =
     (case assignments s pid of
        Some owner \<Rightarrow> Inr (owner, s)
      | None \<Rightarrow>
         (let idx = nextIdx s; n = length (instances s) in
          if n = 0 then Inl DivideByZero
          else let owner = instances s ! (unat idx mod n) in
               Inr (owner, s\<lparr>nextIdx := idx + 1,
                             assignments := (assignments s)(pid \<mapsto> owner)\<rparr>)))"

definition Owner :: "SharedPeerSet \<Rightarrow> peer_id \<Rightarrow> string" where
  "Owner s pid = (case assignments s pid of Some owner \<Rightarrow> owner | None \<Rightarrow> '''')"

definition Claim :: "SharedPeerSet \<Rightarrow> peer_id \<Rightarrow> string \<Rightarrow> (string \<times> bool) \<times> SharedPeerSet" where
  "Claim s pid inst =
     (case assignments s pid of
        Some existing \<Rightarrow> ((existing, existing = inst), s)
      | None \<Rightarrow> ((inst, True), s\<lparr>assignments := (assignments s)(pid \<mapsto> inst)\<rparr>))"

text \<open>Calls in the order in which they take the mutex.\<close>

datatype sps_op = OpAssign peer_id | OpClaim peer_id string

fun sps_step :: "SharedPeerSet \<Rightarrow> sps_op \<Rightarrow> SharedPeerSet res" where
  "sps_step s (OpAssign p) = res_bind (AssignOrGet s p) (\<lambda>(_, s'). Inr s')"
| "sps_step s (OpClaim p i) = Inr (snd (Claim s p i))"

fun sps_run :: "SharedPeerSet \<Rightarrow> sps_op list \<Rightarrow> SharedPeerSet res" where
  "sps_run s [] = Inr s"
| "sps_run s (x # xs) = res_bind (sps_step s x) (\<lambda>s'. sps_run s' xs)"

text \<open>Owners handed out by a sequence of \<^verbatim>\<open>AssignOrGet\<close> calls.\<close>

fun assign_all :: "SharedPeerSet \<Rightarrow> peer_id list \<Rightarrow> (string list \<times> SharedPeerSet) res" where
  "assign_all s [] = Inr ([], s)"
| "assign_all s (p # ps) =
     res_bind (AssignOrGet s p) (\<lambda>(ow, s').
     res_bind (assign_all s' ps) (\<lambda>(os, s''). Inr (ow # os, s'')))"

section \<open>The contract\<close>

locale peer_registry =
  fixes owner_of :: "'s \<Rightarrow> peer_id \<rightharpoonup> string"
    and assign :: "'s \<Rightarrow> peer_id \<Rightarrow> (string \<times> 's) res"
    and claim :: "'s \<Rightarrow> peer_id \<Rightarrow> string \<Rightarrow> (string \<times> bool) \<times> 's"
    and names :: "'s \<Rightarrow> string list"
    and wf :: "'s \<Rightarrow> bool"
  assumes assign_total: "wf s \<Longrightarrow> \<exists>ow s'. assign s p = Inr (ow, s')"
    and assign_wf: "wf s \<Longrightarrow> assign s p = Inr (ow, s') \<Longrightarrow> wf s'"
    and assign_owner: "assign s p = Inr (ow, s') \<Longrightarrow> owner_of s' = (owner_of s)(p \<mapsto> ow)"
    and assign_known: "assign s p = Inr (ow, s') \<Longrightarrow> owner_of s p = Some q \<Longrightarrow> ow = q"
    and assign_names: "assign s p = Inr (ow, s') \<Longrightarrow> names s' = names s"
    and assign_new: "wf s \<Longrightarrow> assign s p = Inr (ow, s') \<Longrightarrow> owner_of s p = None \<Longrightarrow> ow \<in> set (names s)"
    and claim_wf: "wf s \<Longrightarrow> wf (snd (claim s p i))"
    and claim_owner: "owner_of (snd (claim s p i)) = (owner_of s)(p \<mapsto> fst (fst (claim s p i)))"
    and claim_known: "owner_of s p = Some q \<Longrightarrow> fst (fst (claim s p i)) = q"
    and claim_new: "owner_of s p = None \<Longrightarrow> fst (fst (claim s p i)) = i"
    and claim_flag: "snd (fst (claim s p i)) \<longleftrightarrow> fst (fst (claim s p i)) = i"
    and claim_names: "names (snd (claim s p i)) = names s"
begin

lemma assign_grows: "assign s p = Inr (ow, s') \<Longrightarrow> owner_of s \<subseteq>\<^sub>m owner_of s'"
  by (auto simp: map_le_def assign_owner dest: assign_known)

lemma claim_grows: "owner_of s \<subseteq>\<^sub>m owner_of (snd (claim s p i))"
  by (auto simp: map_le_def claim_owner claim_known)

lemma claim_stable: "fst (fst (claim s p i)) = j \<Longrightarrow> fst (fst (claim (snd (claim s p i)) p k)) = j"
  by (rule claim_known) (simp add: claim_owner)

lemma claim_exclusive:
  assumes "i \<noteq> k" and "fst (fst (claim s p i)) = i" and "owner_of (snd (claim s p i)) \<subseteq>\<^sub>m owner_of t"
  shows "fst (fst (claim t p k)) \<noteq> k"
proof -
  from assms(2) have "owner_of (snd (claim s p i)) p = Some i"
    by (simp add: claim_owner)
  with assms(3) have "owner_of t p = Some i"
    by (rule map_le_Some)
  with assms(1) show ?thesis by (simp add: claim_known)
qed

end

section \<open>The model meets the contract\<close>

definition wf_sps :: "SharedPeerSet \<Rightarrow> bool" where
  "wf_sps s \<longleftrightarrow> instances s \<noteq> []"

lemma AssignOrGet_known: "assignments s p = Some q \<Longrightarrow> AssignOrGet s p = Inr (q, s)"
  by (simp add: AssignOrGet_def)

lemma AssignOrGet_new:
  "assignments s p = None \<Longrightarrow> wf_sps s \<Longrightarrow>
   AssignOrGet s p =
     Inr (instances s ! (unat (nextIdx s) mod length (instances s)),
          s\<lparr>nextIdx := nextIdx s + 1,
            assignments := (assignments s)(p \<mapsto> instances s ! (unat (nextIdx s) mod length (instances s)))\<rparr>)"
  by (simp add: AssignOrGet_def wf_sps_def Let_def)

lemma Claim_simps:
  "assignments s p = Some q \<Longrightarrow> Claim s p i = ((q, q = i), s)"
  "assignments s p = None \<Longrightarrow> Claim s p i = ((i, True), s\<lparr>assignments := (assignments s)(p \<mapsto> i)\<rparr>)"
  by (simp_all add: Claim_def)

interpretation sps: peer_registry assignments AssignOrGet Claim instances wf_sps
proof unfold_locales
  fix s :: SharedPeerSet and p ow s' q i
  show "wf_sps s \<Longrightarrow> \<exists>ow s'. AssignOrGet s p = Inr (ow, s')"
    by (cases "assignments s p") (auto simp: AssignOrGet_known AssignOrGet_new)
  show "wf_sps s \<Longrightarrow> AssignOrGet s p = Inr (ow, s') \<Longrightarrow> wf_sps s'"
    by (cases "assignments s p") (auto simp: AssignOrGet_known AssignOrGet_new wf_sps_def)
  show "AssignOrGet s p = Inr (ow, s') \<Longrightarrow> assignments s' = (assignments s)(p \<mapsto> ow)"
    by (auto simp: AssignOrGet_def Let_def split: option.splits if_splits)
  show "AssignOrGet s p = Inr (ow, s') \<Longrightarrow> assignments s p = Some q \<Longrightarrow> ow = q"
    by (simp add: AssignOrGet_known)
  show "AssignOrGet s p = Inr (ow, s') \<Longrightarrow> instances s' = instances s"
    by (auto simp: AssignOrGet_def Let_def split: option.splits if_splits)
  show "wf_sps s \<Longrightarrow> AssignOrGet s p = Inr (ow, s') \<Longrightarrow> assignments s p = None \<Longrightarrow> ow \<in> set (instances s)"
    by (auto simp: AssignOrGet_new wf_sps_def)
  show "wf_sps s \<Longrightarrow> wf_sps (snd (Claim s p i))"
    and "assignments (snd (Claim s p i)) = (assignments s)(p \<mapsto> fst (fst (Claim s p i)))"
    and "assignments s p = Some q \<Longrightarrow> fst (fst (Claim s p i)) = q"
    and "assignments s p = None \<Longrightarrow> fst (fst (Claim s p i)) = i"
    and "snd (fst (Claim s p i)) = (fst (fst (Claim s p i)) = i)"
    and "instances (snd (Claim s p i)) = instances s"
    by (cases "assignments s p"; simp add: Claim_simps wf_sps_def map_upd_triv)+
qed

lemma NewSharedPeerSet_wf: "NewSharedPeerSet names = Inr s \<Longrightarrow> wf_sps s"
  by (auto simp: NewSharedPeerSet_def wf_sps_def split: if_splits)

section \<open>Runs: ownership is persistent\<close>

lemma sps_step_total: "wf_sps s \<Longrightarrow> \<exists>s'. sps_step s x = Inr s' \<and> wf_sps s'"
proof (cases x)
  case (OpAssign p)
  assume "wf_sps s"
  moreover then obtain ow s' where "AssignOrGet s p = Inr (ow, s')"
    using sps.assign_total by blast
  ultimately show ?thesis using OpAssign sps.assign_wf by auto
next
  case (OpClaim p i)
  assume "wf_sps s"
  with OpClaim show ?thesis by (simp add: sps.claim_wf)
qed

lemma sps_step_grows: "sps_step s x = Inr s' \<Longrightarrow> assignments s \<subseteq>\<^sub>m assignments s'"
  by (cases x) (auto simp: res_bind_Inr_iff intro: sps.assign_grows sps.claim_grows)

lemma sps_run_grows: "sps_run s xs = Inr s' \<Longrightarrow> assignments s \<subseteq>\<^sub>m assignments s'"
  by (induction xs arbitrary: s)
    (auto simp: res_bind_Inr_iff intro: map_le_trans sps_step_grows)

lemma sps_run_total: "wf_sps s \<Longrightarrow> \<exists>s'. sps_run s xs = Inr s' \<and> wf_sps s'"
proof (induction xs arbitrary: s)
  case (Cons x xs)
  from Cons.prems obtain s1 where "sps_step s x = Inr s1" and "wf_sps s1"
    using sps_step_total by blast
  with Cons.IH [of s1] show ?case by simp
qed simp

section \<open>Round robin\<close>

text \<open>How often a residue occurs below a bound.\<close>

lemma residue_count:
  "j < n \<Longrightarrow> length (filter (\<lambda>k. k mod n = j) [0..<N]) = N div n + (if j < N mod n then 1 else 0)"
proof (induction N)
  case (Suc N)
  from Suc.prems have "N mod n < n" by simp
  with Suc show ?case by (auto simp: div_Suc mod_Suc)
qed simp

lemma assign_all_round_robin:
  assumes "wf_sps s" and "distinct ps" and "\<forall>p \<in> set ps. assignments s p = None"
    and "unat (nextIdx s) + length ps < 2 ^ 64"
  shows "\<exists>s'. assign_all s ps =
     Inr (map (\<lambda>k. instances s ! ((unat (nextIdx s) + k) mod length (instances s))) [0..<length ps], s')"
  using assms
proof (induction ps arbitrary: s)
  case (Cons p ps)
  let ?n = "length (instances s)" and ?i = "unat (nextIdx s)"
  let ?s = "s\<lparr>nextIdx := nextIdx s + 1, assignments := (assignments s)(p \<mapsto> instances s ! (?i mod ?n))\<rparr>"
  have idx: "unat (nextIdx s + 1) = Suc ?i"
    using Cons.prems(4) by (simp add: unat_word_ariths)
  from Cons.prems have "wf_sps ?s" and "distinct ps" and "\<forall>p \<in> set ps. assignments ?s p = None"
    and "unat (nextIdx ?s) + length ps < 2 ^ 64"
    by (auto simp: wf_sps_def idx)
  then obtain s' where "assign_all ?s ps =
      Inr (map (\<lambda>k. instances ?s ! ((unat (nextIdx ?s) + k) mod length (instances ?s))) [0..<length ps], s')"
    using Cons.IH by blast
  moreover have "AssignOrGet s p = Inr (instances s ! (?i mod ?n), ?s)"
    using Cons.prems by (simp add: AssignOrGet_new)
  ultimately show ?case
    by (simp add: idx upt_conv_Cons map_Suc_upt [symmetric] del: upt_Suc map_Suc_upt)
qed simp

lemma count_mapped_residues:
  assumes "distinct names" and "j < length names"
  shows "count_list (map (\<lambda>k. names ! (k mod length names)) [0..<N]) (names ! j) =
    N div length names + (if j < N mod length names then 1 else 0)"
proof -
  have "names ! (k mod length names) = names ! j \<longleftrightarrow> k mod length names = j" for k
    using assms by (metis length_pos_if_in_set mod_less_divisor nth_eq_iff_index_eq nth_mem)
  then have "count_list (map (\<lambda>k. names ! (k mod length names)) [0..<N]) (names ! j) =
      length (filter (\<lambda>k. k mod length names = j) [0..<N])"
    by (induction N) auto
  with assms(2) show ?thesis by (simp add: residue_count)
qed

section \<open>Properties\<close>

text \<open>
  C16: an assignment is persistent.  In any interleaving of \<^verbatim>\<open>AssignOrGet\<close> and \<^verbatim>\<open>Claim\<close> calls by any
  instances no call panics, and a peer that had an owner keeps it.
\<close>

theorem ownership_persistent:
  assumes "wf_sps s"
  shows "\<exists>s'. sps_run s ops = Inr s' \<and> (\<forall>p ow. assignments s p = Some ow \<longrightarrow> assignments s' p = Some ow)"
proof -
  from assms obtain s' where run: "sps_run s ops = Inr s'"
    using sps_run_total by blast
  then have "assignments s \<subseteq>\<^sub>m assignments s'" by (rule sps_run_grows)
  with run show ?thesis by (blast intro: map_le_Some)
qed

theorem ownership_persistent_witness:
  "\<exists>s'. sps_run \<lparr>assignments = [''p'' \<mapsto> ''a''], instances = [''a'', ''b''], nextIdx = 1\<rparr>
          [OpClaim ''p'' ''b'', OpAssign ''q''] = Inr s' \<and>
        assignments s' ''p'' = Some ''a''"
  using ownership_persistent
    [of "\<lparr>assignments = [''p'' \<mapsto> ''a''], instances = [''a'', ''b''], nextIdx = 1\<rparr>"
        "[OpClaim ''p'' ''b'', OpAssign ''q'']"]
  by (fastforce simp: wf_sps_def simp del: sps_run.simps)

text \<open>
  C15: round robin is fair.  From a new set, \<^verbatim>\<open>AssignOrGet\<close> on distinct peers gives the k-th peer to
  instance k modulo the number of instances, so the numbers of peers of two instances
  differ by at most one.
\<close>

theorem round_robin_balanced:
  assumes "NewSharedPeerSet names = Inr s" and "distinct names"
    and "distinct ps" and "length ps < 2 ^ 64"
  shows "\<exists>os s'. assign_all s ps = Inr (os, s') \<and>
     os = map (\<lambda>k. names ! (k mod length names)) [0..<length ps] \<and>
     (\<forall>nm \<in> set names. count_list os nm \<in> {length ps div length names, length ps div length names + 1})"
proof -
  from assms(1) have s: "s = \<lparr>assignments = Map.empty, instances = names, nextIdx = 0\<rparr>"
    by (auto simp: NewSharedPeerSet_def split: if_splits)
  from assms(1) have "wf_sps s" by (rule NewSharedPeerSet_wf)
  with assms(3,4) s obtain s' where
    "assign_all s ps = Inr (map (\<lambda>k. names ! (k mod length names)) [0..<length ps], s')"
    using assign_all_round_robin [of s ps] by auto
  moreover have "count_list (map (\<lambda>k. names ! (k mod length names)) [0..<length ps]) nm
      \<in> {length ps div length names, length ps div length names + 1}" if "nm \<in> set names" for nm
    using that assms(2) by (auto simp: in_set_conv_nth count_mapped_residues)
  ultimately show ?thesis by blast
qed

theorem round_robin_balanced_witness:
  "\<exists>os s'. assign_all \<lparr>assignments = Map.empty, instances = [''a'', ''b''], nextIdx = 0\<rparr> [''p'', ''q'', ''r''] = Inr (os, s') \<and>
     os = map (\<lambda>k. [''a'', ''b''] ! (k mod length [''a'', ''b''])) [0..<length [''p'', ''q'', ''r'']] \<and>
     (\<forall>nm \<in> set [''a'', ''b'']. count_list os nm \<in>
        {length [''p'', ''q'', ''r''] div length [''a'', ''b''], length [''p'', ''q'', ''r''] div length [''a'', ''b''] + 1})"
  by (rule round_robin_balanced) (simp_all add: NewSharedPeerSet_def)

end
