(* ===== verification/Libp2p_Env.thy ===== *)
theory Libp2p_Env
  imports Go_Prelude
begin

text \<open>
  What the program sees of a libp2p host.  libp2p is not part of the repository, so its
  state is an argument of the operations that query it: the connectedness of a peer, the list
  of connected peers (\<^verbatim>\<open>Network().Peers()\<close>) and the remote multiaddresses of the connections to
  a peer (\<^verbatim>\<open>Network().ConnsToPeer\<close>, each by its string form).
\<close>

datatype connectedness = NotConnected | Connected | OtherConnectedness

record host_net =
  net_connectedness :: "peer_id \<Rightarrow> connectedness"
  net_peers :: "peer_id list"
  net_conns :: "peer_id \<Rightarrow> string list"

text \<open>\<^verbatim>\<open>peer.AddrInfo\<close>: an identity and its addresses, each by its string form.\<close>

record AddrInfo =
  ai_id :: peer_id
  ai_addrs :: "string list"

definition zero_AddrInfo :: AddrInfo where
  "zero_AddrInfo = \<lparr>ai_id = '''', ai_addrs = []\<rparr>"

definition host_connected :: "host_net \<Rightarrow> peer_id \<Rightarrow> bool" where
  "host_connected h p \<longleftrightarrow> net_connectedness h p = Connected"

text \<open>A host with no connection, for concrete instances.\<close>

definition idle_host :: host_net where
  "idle_host = \<lparr>net_connectedness = (\<lambda>_. NotConnected), net_peers = [], net_conns = (\<lambda>_. [])\<rparr>"

end
