(* ===== verification/Peer_Finder.thy ===== *)
theory Peer_Finder
  imports Shared_Peer_Set Libp2p_Env
begin

text \<open>
  \<^verbatim>\<open>node/peerfinder.go\<close>: all discovered peers, per owning instance.  The SharedPeerSet a PeerFinder
  points to is shared with the gaters and the inbound handlers, so it is passed and
  returned beside the finder's own state.  The order in which Go iterates over a map is an
  argument (\<open>order\<close>, a list of its keys).
\<close>

section \<open>State and operations\<close>

record PeerFinder =
  hosts :: "(string \<times> host_net) list"
  peers :: "string \<rightharpoonup> (peer_id \<rightharpoonup> AddrInfo)"

definition NewPeerFinder :: "(string \<times> host_net) list \<Rightarrow> PeerFinder" where
  "NewPeerFinder hs =
     \<lparr>hosts = hs, peers = fold (\<lambda>(name, _) ps. ps(name \<mapsto> Map.empty)) hs Map.empty\<rparr>"

definition AddPeer :: "PeerFinder \<Rightarrow> SharedPeerSet \<Rightarrow> AddrInfo \<Rightarrow> (PeerFinder \<times> SharedPeerSet) res" where
  "AddPeer pf s ai =
     res_bind (AssignOrGet s (ai_id ai)) (\<lambda>(owner, s').
       case peers pf owner of
         Some m \<Rightarrow> Inr (pf\<lparr>peers := (peers pf)(owner \<mapsto> m(ai_id ai \<mapsto> ai))\<rparr>, s')
       | None \<Rightarrow> Inr (pf, s'))"

definition Route :: "PeerFinder \<Rightarrow> SharedPeerSet \<Rightarrow> AddrInfo \<Rightarrow> (PeerFinder \<times> SharedPeerSet) res" where
  "Route pf s ai = AddPeer pf s ai"

definition skips :: "(peer_id \<Rightarrow> bool) option \<Rightarrow> peer_id \<Rightarrow> bool" where
  "skips skip pid = (case skip of None \<Rightarrow> False | Some f \<Rightarrow> f pid)"

definition GetPeers ::
  "PeerFinder \<Rightarrow> string \<Rightarrow> int \<Rightarrow> (peer_id \<Rightarrow> bool) option \<Rightarrow> peer_id list \<Rightarrow> (nat \<Rightarrow> nat) \<Rightarrow> AddrInfo list res"
where
  "GetPeers pf inst cnt skip order rnd =
     (case peers pf inst of
        None \<Rightarrow> Inr []
      | Some m \<Rightarrow>
         (let eligible = filter (\<lambda>pid. \<not> skips skip pid) order in
          if length eligible = 0 then Inr []
          else
            let eligible = go_shuffle rnd eligible;
                cnt = (if cnt > int (length eligible) then int (length eligible) else cnt)
            in if cnt < 0 then Inl NegativeLen
               else Inr (map (\<lambda>i. case m (eligible ! i) of Some ai \<Rightarrow> ai | None \<Rightarrow> zero_AddrInfo)
                             [0..<nat cnt])))"

fun connected_any :: "(string \<times> host_net) list \<Rightarrow> peer_id \<Rightarrow> bool" where
  "connected_any [] pid = False"
| "connected_any ((_, h) # hs) pid = (if host_connected h pid then True else connected_any hs pid)"

definition IsConnectedToAny :: "PeerFinder \<Rightarrow> peer_id \<Rightarrow> bool" where
  "IsConnectedToAny pf pid = connected_any (hosts pf) pid"

text \<open>Several calls of \<^verbatim>\<open>AddPeer\<close>, in order.\<close>

fun add_all :: "PeerFinder \<Rightarrow> SharedPeerSet \<Rightarrow> AddrInfo list \<Rightarrow> (PeerFinder \<times> SharedPeerSet) res" where
  "add_all pf s [] = Inr (pf, s)"
| "add_all pf s (ai # ais) = res_bind (AddPeer pf s ai) (\<lambda>(pf', s'). add_all pf' s' ais)"

section \<open>Invariant\<close>

definition lookup_peer :: "PeerFinder \<Rightarrow> string \<Rightarrow> peer_id \<Rightarrow> AddrInfo option" where
  "lookup_peer pf inst pid = (case peers pf inst of None \<Rightarrow> None | Some m \<Rightarrow> m pid)"

text \<open>
  Every stored entry carries its own key and sits with the instance that owns the peer; every
  name that can own a peer has a table.
\<close>

definition pf_inv :: "PeerFinder \<Rightarrow> SharedPeerSet \<Rightarrow> bool" where
  "pf_inv pf s \<longleftrightarrow> wf_sps s \<and>
     (\<forall>inst pid ai. lookup_peer pf inst pid = Some ai \<longrightarrow> ai_id ai = pid \<and> assignments s pid = Some inst)"

definition pf_covers :: "PeerFinder \<Rightarrow> SharedPeerSet \<Rightarrow> bool" where
  "pf_covers pf s \<longleftrightarrow> set (instances s) \<subseteq> dom (peers pf) \<and> ran (assignments s) \<subseteq> dom (peers pf)"

lemma pf_invD:
  "pf_inv pf s \<Longrightarrow> lookup_peer pf inst pid = Some ai \<Longrightarrow> ai_id ai = pid"
  "pf_inv pf s \<Longrightarrow> lookup_peer pf inst pid = Some ai \<Longrightarrow> assignments s pid = Some inst"
  "pf_inv pf s \<Longrightarrow> wf_sps s"
  by (auto simp: pf_inv_def)

lemma pf_inv_grow: "pf_inv pf s \<Longrightarrow> wf_sps s' \<Longrightarrow> assignments s \<subseteq>\<^sub>m assignments s' \<Longrightarrow> pf_inv pf s'"
  by (auto simp: pf_inv_def dest: map_le_Some)

lemma AddPeer_cases:
  assumes "AddPeer pf s ai = Inr (pf', s')"
  obtains owner where "AssignOrGet s (ai_id ai) = Inr (owner, s')"
    and "lookup_peer pf' = (if owner \<in> dom (peers pf)
           then (lookup_peer pf)(owner := (lookup_peer pf owner)(ai_id ai \<mapsto> ai)) else lookup_peer pf)"
    and "dom (peers pf') = dom (peers pf)" and "hosts pf' = hosts pf"
proof -
  from assms obtain owner where a: "AssignOrGet s (ai_id ai) = Inr (owner, s')"
    and r: "(case peers pf owner of
         Some m \<Rightarrow> Inr (pf\<lparr>peers := (peers pf)(owner \<mapsto> m(ai_id ai \<mapsto> ai))\<rparr>, s')
       | None \<Rightarrow> Inr (pf, s')) = (Inr (pf', s') :: (PeerFinder \<times> SharedPeerSet) res)"
    by (auto simp: AddPeer_def res_bind_Inr_iff split: option.splits)
  from r have "lookup_peer pf' = (if owner \<in> dom (peers pf)
           then (lookup_peer pf)(owner := (lookup_peer pf owner)(ai_id ai \<mapsto> ai)) else lookup_peer pf)
      \<and> dom (peers pf') = dom (peers pf) \<and> hosts pf' = hosts pf"
    by (cases "peers pf owner") (auto simp: lookup_peer_def intro!: ext split: if_splits)
  with a that show thesis by blast
qed

lemma AddPeer_total: "wf_sps s \<Longrightarrow> \<exists>pf' s'. AddPeer pf s ai = Inr (pf', s')"
  using sps.assign_total [of s "ai_id ai"] by (auto simp: AddPeer_def split: option.splits)

lemma AddPeer_grows: "AddPeer pf s ai = Inr (pf', s') \<Longrightarrow> assignments s \<subseteq>\<^sub>m assignments s'"
  by (erule AddPeer_cases) (rule sps.assign_grows)

lemma AddPeer_wf: "wf_sps s \<Longrightarrow> AddPeer pf s ai = Inr (pf', s') \<Longrightarrow> wf_sps s'"
  by (erule AddPeer_cases) (rule sps.assign_wf)

lemma AddPeer_inv:
  assumes "pf_inv pf s" and add: "AddPeer pf s ai = Inr (pf', s')"
  shows "pf_inv pf' s'"
proof -
  from assms have "pf_inv pf s'"
    by (blast intro: pf_inv_grow AddPeer_wf AddPeer_grows pf_invD)
  moreover from add obtain owner where "assignments s' (ai_id ai) = Some owner"
    and "lookup_peer pf' = (if owner \<in> dom (peers pf)
           then (lookup_peer pf)(owner := (lookup_peer pf owner)(ai_id ai \<mapsto> ai)) else lookup_peer pf)"
    by (rule AddPeer_cases) (auto simp: sps.assign_owner)
  ultimately show ?thesis by (auto simp: pf_inv_def)
qed

lemma AddPeer_covers:
  assumes "pf_covers pf s" and "wf_sps s" and add: "AddPeer pf s ai = Inr (pf', s')"
  shows "pf_covers pf' s'"
proof -
  from add obtain owner where a: "AssignOrGet s (ai_id ai) = Inr (owner, s')"
    and d: "dom (peers pf') = dom (peers pf)"
    by (rule AddPeer_cases)
  have "owner \<in> set (instances s) \<or> owner \<in> ran (assignments s)"
    using sps.assign_new [OF assms(2) a] sps.assign_known [OF a]
    by (cases "assignments s (ai_id ai)") (auto intro: ranI)
  moreover have "ran (assignments s') \<subseteq> insert owner (ran (assignments s))"
    by (auto simp: sps.assign_owner [OF a] ran_def)
  ultimately show ?thesis
    using assms(1) d sps.assign_names [OF a] by (auto simp: pf_covers_def)
qed

lemma AddPeer_owner_in_dom:
  assumes "pf_covers pf s" and "wf_sps s" and "AssignOrGet s p = Inr (owner, s')"
  shows "owner \<in> dom (peers pf)"
proof (cases "assignments s p")
  case None
  with assms show ?thesis using sps.assign_new by (fastforce simp: pf_covers_def)
next
  case (Some q)
  with assms show ?thesis using sps.assign_known by (fastforce simp: pf_covers_def ran_def)
qed

lemma AddPeer_stores:
  assumes "pf_covers pf s" and "wf_sps s" and add: "AddPeer pf s ai = Inr (pf', s')"
  obtains owner where "AssignOrGet s (ai_id ai) = Inr (owner, s')"
    and "lookup_peer pf' = (lookup_peer pf)(owner := (lookup_peer pf owner)(ai_id ai \<mapsto> ai))"
  using add by (rule AddPeer_cases) (use AddPeer_owner_in_dom [OF assms(1,2)] in simp)

definition known_peers :: "PeerFinder \<Rightarrow> peer_id set" where
  "known_peers pf = {pid. \<exists>inst. lookup_peer pf inst pid \<noteq> None}"

lemma AddPeer_known:
  assumes "pf_covers pf s" and "wf_sps s" and "AddPeer pf s ai = Inr (pf', s')"
  shows "known_peers pf' = insert (ai_id ai) (known_peers pf)"
proof -
  from assms obtain owner where
    "lookup_peer pf' = (lookup_peer pf)(owner := (lookup_peer pf owner)(ai_id ai \<mapsto> ai))"
    by (rule AddPeer_stores)
  then have "(\<exists>inst. lookup_peer pf' inst pid \<noteq> None) \<longleftrightarrow>
      pid = ai_id ai \<or> (\<exists>inst. lookup_peer pf inst pid \<noteq> None)" for pid
    by (cases "pid = ai_id ai") (auto simp: fun_upd_apply)
  then show ?thesis by (auto simp: known_peers_def)
qed

section \<open>The router interface\<close>

text \<open>
  \<^verbatim>\<open>discovery.PeerRouter\<close> is an interface: discovery calls \<^verbatim>\<open>Route\<close> and \<^verbatim>\<open>IsConnectedToAny\<close> and
  relies on every routed peer being kept.  PeerFinder implements it.
\<close>

locale peer_router =
  fixes route :: "'r \<Rightarrow> AddrInfo \<Rightarrow> 'r res"
    and conn_any :: "'r \<Rightarrow> peer_id \<Rightarrow> bool"
    and known :: "'r \<Rightarrow> peer_id set"
    and inv :: "'r \<Rightarrow> bool"
  assumes route_total: "inv r \<Longrightarrow> \<exists>r'. route r ai = Inr r'"
    and route_inv: "inv r \<Longrightarrow> route r ai = Inr r' \<Longrightarrow> inv r'"
    and route_known: "inv r \<Longrightarrow> route r ai = Inr r' \<Longrightarrow> known r' = insert (ai_id ai) (known r)"
    and route_conn: "route r ai = Inr r' \<Longrightarrow> conn_any r' = conn_any r"

definition pf_route :: "PeerFinder \<times> SharedPeerSet \<Rightarrow> AddrInfo \<Rightarrow> (PeerFinder \<times> SharedPeerSet) res" where
  "pf_route r ai = Route (fst r) (snd r) ai"

definition pf_conn :: "PeerFinder \<times> SharedPeerSet \<Rightarrow> peer_id \<Rightarrow> bool" where
  "pf_conn r = IsConnectedToAny (fst r)"

definition pf_ok :: "PeerFinder \<times> SharedPeerSet \<Rightarrow> bool" where
  "pf_ok r \<longleftrightarrow> pf_inv (fst r) (snd r) \<and> pf_covers (fst r) (snd r)"

interpretation pfr: peer_router pf_route pf_conn "\<lambda>r. known_peers (fst r)" pf_ok
proof unfold_locales
  fix r ai r'
  show "pf_ok r \<Longrightarrow> \<exists>r'. pf_route r ai = Inr r'"
    using AddPeer_total [of "snd r" "fst r" ai] by (auto simp: pf_ok_def pf_route_def Route_def pf_inv_def)
  show "pf_ok r \<Longrightarrow> pf_route r ai = Inr r' \<Longrightarrow> pf_ok r'"
    by (cases r') (auto simp: pf_ok_def pf_route_def Route_def intro: AddPeer_inv AddPeer_covers dest: pf_invD(3))
  show "pf_ok r \<Longrightarrow> pf_route r ai = Inr r' \<Longrightarrow> known_peers (fst r') = insert (ai_id ai) (known_peers (fst r))"
    by (cases r') (auto simp: pf_ok_def pf_route_def Route_def AddPeer_known pf_invD)
  show "pf_route r ai = Inr r' \<Longrightarrow> pf_conn r' = pf_conn r"
    by (cases r') (auto simp: pf_route_def Route_def pf_conn_def IsConnectedToAny_def fun_eq_iff elim!: AddPeer_cases)
qed

section \<open>What \<^verbatim>\<open>GetPeers\<close> returns\<close>

lemma GetPeers_eq:
  assumes "peers pf inst = Some m" and "0 \<le> cnt" and "set order \<subseteq> dom m"
  shows "GetPeers pf inst cnt skip order rnd =
    Inr (map (\<lambda>pid. the (m pid)) (take (nat cnt) (go_shuffle rnd (filter (\<lambda>pid. \<not> skips skip pid) order))))"
proof -
  let ?e = "go_shuffle rnd (filter (\<lambda>pid. \<not> skips skip pid) order)"
  let ?n = "nat (if cnt > int (length ?e) then int (length ?e) else cnt)"
  have n: "?n = min (nat cnt) (length ?e)" by simp
  have "(case m (?e ! i) of Some ai \<Rightarrow> ai | None \<Rightarrow> zero_AddrInfo) = the (m (?e ! i))" if "i < ?n" for i
  proof -
    from that have "i < length ?e" by (simp only: n)
    then have "?e ! i \<in> set ?e" by (rule nth_mem)
    then have "?e ! i \<in> dom m" using assms(3) by auto
    then show ?thesis by auto
  qed
  then have "map (\<lambda>i. case m (?e ! i) of Some ai \<Rightarrow> ai | None \<Rightarrow> zero_AddrInfo) [0..<?n] =
      map (\<lambda>i. the (m (?e ! i))) [0..<?n]" by simp
  also have "\<dots> = map (\<lambda>pid. the (m pid)) (take (nat cnt) ?e)"
    unfolding n by (rule nth_equalityI) auto
  finally show ?thesis
    using assms(1,2) by (auto simp: GetPeers_def Let_def)
qed

lemma GetPeers_owned:
  assumes "pf_inv pf s" and "peers pf inst = Some m" and "set order \<subseteq> dom m"
    and "GetPeers pf inst cnt skip order rnd = Inr r" and "ai \<in> set r"
  shows "assignments s (ai_id ai) = Some inst"
proof -
  have "0 \<le> cnt"
    using assms(2,4,5) by (auto simp: GetPeers_def Let_def split: if_splits)
  then have "r = map (\<lambda>pid. the (m pid)) (take (nat cnt) (go_shuffle rnd (filter (\<lambda>pid. \<not> skips skip pid) order)))"
    using GetPeers_eq assms(2-4) by auto
  with assms(5) obtain pid where "pid \<in> set order" and ai: "ai = the (m pid)"
    by (auto dest!: in_set_takeD)
  with assms(3) have "lookup_peer pf inst pid = Some ai"
    using assms(2) by (auto simp: lookup_peer_def)
  with assms(1) show ?thesis using pf_invD by blast
qed

text \<open>
  C20: \<^verbatim>\<open>GetPeers\<close> returns as many peers as asked for, or all there are: for a non-negative count it
  never panics and returns min(count, eligible) different peers, each stored for the instance
  with its latest addresses, owned by the instance and not skipped, whatever the map's
  iteration order and the random draws.
\<close>

theorem GetPeers_spec:
  assumes "pf_inv pf s" and "peers pf inst = Some m" and "distinct order" and "set order = dom m" and "0 \<le> cnt"
  shows "\<exists>r. GetPeers pf inst cnt skip order rnd = Inr r \<and>
     length r = min (nat cnt) (card {pid \<in> dom m. \<not> skips skip pid}) \<and>
     distinct (map ai_id r) \<and>
     (\<forall>ai \<in> set r. m (ai_id ai) = Some ai \<and> assignments s (ai_id ai) = Some inst \<and> \<not> skips skip (ai_id ai))"
proof -
  let ?e = "go_shuffle rnd (filter (\<lambda>pid. \<not> skips skip pid) order)"
  let ?t = "take (nat cnt) ?e"
  let ?r = "map (\<lambda>pid. the (m pid)) ?t"
  have t: "set ?t \<subseteq> {pid \<in> dom m. \<not> skips skip pid}"
    using assms(4) set_take_subset [of "nat cnt" ?e] by auto
  have key: "ai_id (the (m pid)) = pid \<and> assignments s pid = Some inst" if "pid \<in> dom m" for pid
    using that assms(1,2) by (auto simp: pf_inv_def lookup_peer_def split: option.splits)
  with t have at: "pid \<in> dom m \<and> ai_id (the (m pid)) = pid \<and> assignments s pid = Some inst \<and> \<not> skips skip pid"
    if "pid \<in> set ?t" for pid
    using that by blast
  have ids: "map ai_id ?r = ?t"
    unfolding map_map comp_def by (rule map_idI) (blast dest: at)
  have "length ?e = card {pid \<in> dom m. \<not> skips skip pid}"
    using assms(3,4) distinct_card [of "filter (\<lambda>pid. \<not> skips skip pid) order"] by simp
  moreover have "distinct ?t" using assms(3) by (simp add: distinct_take)
  moreover have "\<forall>ai \<in> set ?r. m (ai_id ai) = Some ai \<and> assignments s (ai_id ai) = Some inst \<and> \<not> skips skip (ai_id ai)"
  proof
    fix ai assume "ai \<in> set ?r"
    then obtain pid where "pid \<in> set ?t" and "ai = the (m pid)" by auto
    with at [of pid] show "m (ai_id ai) = Some ai \<and> assignments s (ai_id ai) = Some inst \<and> \<not> skips skip (ai_id ai)"
      by auto
  qed
  ultimately show ?thesis
    using GetPeers_eq [OF assms(2,5), of order skip rnd] assms(4) ids by (auto simp: min.commute)
qed

theorem GetPeers_spec_witness:
  "\<exists>r. GetPeers \<lparr>hosts = [], peers = [''a'' \<mapsto> [''p'' \<mapsto> \<lparr>ai_id = ''p'', ai_addrs = []\<rparr>]]\<rparr> ''a'' 50 None [''p''] (\<lambda>_. 0) = Inr r \<and>
     length r = min (nat 50) (card {pid \<in> dom [''p'' \<mapsto> \<lparr>ai_id = ''p'', ai_addrs = []\<rparr>]. \<not> skips None pid}) \<and>
     distinct (map ai_id r) \<and>
     (\<forall>ai \<in> set r. [''p'' \<mapsto> \<lparr>ai_id = ''p'', ai_addrs = []\<rparr>] (ai_id ai) = Some ai \<and>
        assignments \<lparr>assignments = [''p'' \<mapsto> ''a''], instances = [''a''], nextIdx = 1\<rparr> (ai_id ai) = Some ''a'' \<and>
        \<not> skips None (ai_id ai))"
  by (rule GetPeers_spec) (auto simp: pf_inv_def wf_sps_def lookup_peer_def split: if_splits)

section \<open>No discovered peer is lost\<close>

definition latest :: "AddrInfo list \<Rightarrow> peer_id \<Rightarrow> AddrInfo option" where
  "latest ais pid =
     (let xs = filter (\<lambda>ai. ai_id ai = pid) ais in if xs = [] then None else Some (last xs))"

lemma latest_Nil [simp]: "latest [] pid = None"
  by (simp add: latest_def)

lemma latest_snoc: "latest (ais @ [ai]) = (latest ais)(ai_id ai \<mapsto> ai)"
  by (auto simp: latest_def fun_eq_iff)

lemma add_all_append:
  "add_all pf s (xs @ ys) = res_bind (add_all pf s xs) (\<lambda>(pf', s'). add_all pf' s' ys)"
proof (induction xs arbitrary: pf s)
  case (Cons x xs)
  then show ?case by (cases "AddPeer pf s x") (auto split: prod.splits)
qed simp

lemma add_all_lookup:
  assumes "pf_ok (pf, s)" and "\<And>inst pid. lookup_peer pf inst pid = None"
  shows "\<exists>pf' s'. add_all pf s ais = Inr (pf', s') \<and> pf_ok (pf', s') \<and>
     ai_id ` set ais \<subseteq> dom (assignments s') \<and>
     (\<forall>inst pid. lookup_peer pf' inst pid = (if assignments s' pid = Some inst then latest ais pid else None))"
proof (induction ais rule: rev_induct)
  case Nil
  with assms show ?case by simp
next
  case (snoc ai ais)
  then obtain pf1 s1 where run: "add_all pf s ais = Inr (pf1, s1)" and ok: "pf_ok (pf1, s1)"
    and dom: "ai_id ` set ais \<subseteq> dom (assignments s1)"
    and look: "\<And>inst pid. lookup_peer pf1 inst pid = (if assignments s1 pid = Some inst then latest ais pid else None)"
    by blast
  from ok have cov: "pf_covers pf1 s1" and wf: "wf_sps s1"
    by (simp_all add: pf_ok_def pf_inv_def)
  from AddPeer_total [OF wf] obtain pf2 s2 where add: "AddPeer pf1 s1 ai = Inr (pf2, s2)"
    by blast
  from ok add have ok2: "pf_ok (pf2, s2)"
    using pfr.route_inv [of "(pf1, s1)" ai "(pf2, s2)"] by (simp add: pf_route_def Route_def)
  from cov wf add obtain owner where a: "AssignOrGet s1 (ai_id ai) = Inr (owner, s2)"
    and l: "lookup_peer pf2 = (lookup_peer pf1)(owner := (lookup_peer pf1 owner)(ai_id ai \<mapsto> ai))"
    by (rule AddPeer_stores)
  have known: "assignments s1 (ai_id ai) = Some q \<Longrightarrow> q = owner" for q
    using sps.assign_known [OF a] by simp
  have "lookup_peer pf2 inst pid = (if assignments s2 pid = Some inst then latest (ais @ [ai]) pid else None)" for inst pid
    by (auto simp: l sps.assign_owner [OF a] look latest_snoc dest: known)
  moreover have "ai_id ` set (ais @ [ai]) \<subseteq> dom (assignments s2)"
    using dom by (auto simp: sps.assign_owner [OF a])
  ultimately show ?case using run add ok2 by (simp add: add_all_append)
qed

lemma NewPeerFinder_peers:
  "peers (NewPeerFinder hs) inst = (if inst \<in> fst ` set hs then Some Map.empty else None)"
proof -
  have "fold (\<lambda>(name, _) ps. ps(name \<mapsto> Map.empty)) hs m inst =
      (if inst \<in> fst ` set hs then Some Map.empty else m inst)" for m :: "string \<rightharpoonup> (peer_id \<rightharpoonup> AddrInfo)"
    by (induction hs arbitrary: m) auto
  then show ?thesis by (simp add: NewPeerFinder_def)
qed

lemma New_pf_ok:
  assumes "NewSharedPeerSet (map fst hs) = Inr s"
  shows "pf_ok (NewPeerFinder hs, s)" and "lookup_peer (NewPeerFinder hs) inst pid = None"
  using assms NewSharedPeerSet_wf [OF assms]
  by (auto simp: pf_ok_def pf_inv_def pf_covers_def lookup_peer_def NewPeerFinder_peers
      NewSharedPeerSet_def dom_def split: if_splits)

text \<open>
  C19: no discovered peer is dropped.  However many peers \<^verbatim>\<open>AddPeer\<close> stores and however often each
  is seen, in a finder over the instances of the shared set a peer is found, with the
  addresses of its latest discovery, with exactly one instance: its owner.
\<close>

theorem add_all_keeps_every_peer:
  assumes "NewSharedPeerSet (map fst hs) = Inr s"
  shows "\<exists>pf' s'. add_all (NewPeerFinder hs) s ais = Inr (pf', s') \<and>
     (\<forall>ai \<in> set ais. \<exists>!inst. lookup_peer pf' inst (ai_id ai) \<noteq> None) \<and>
     (\<forall>inst pid. lookup_peer pf' inst pid = (if assignments s' pid = Some inst then latest ais pid else None))"
proof -
  obtain pf' s' where run: "add_all (NewPeerFinder hs) s ais = Inr (pf', s')"
    and look: "\<And>inst pid. lookup_peer pf' inst pid = (if assignments s' pid = Some inst then latest ais pid else None)"
    and dom: "ai_id ` set ais \<subseteq> dom (assignments s')"
    using add_all_lookup [OF New_pf_ok [OF assms]] by metis
  have "\<exists>!inst. lookup_peer pf' inst (ai_id ai) \<noteq> None" if "ai \<in> set ais" for ai
  proof -
    have "latest ais (ai_id ai) \<noteq> None"
      using that by (auto simp: latest_def filter_empty_conv)
    moreover have "assignments s' (ai_id ai) \<noteq> None" using that dom by auto
    ultimately show ?thesis by (auto simp: look)
  qed
  with run look show ?thesis by blast
qed

theorem add_all_keeps_every_peer_witness:
  "\<exists>pf' s'. add_all (NewPeerFinder [(''a'', idle_host), (''b'', idle_host)])
       \<lparr>assignments = Map.empty, instances = [''a'', ''b''], nextIdx = 0\<rparr>
       [\<lparr>ai_id = ''p'', ai_addrs = [''x'']\<rparr>, \<lparr>ai_id = ''p'', ai_addrs = [''y'']\<rparr>] = Inr (pf', s') \<and>
     (\<forall>ai \<in> set [\<lparr>ai_id = ''p'', ai_addrs = [''x'']\<rparr>, \<lparr>ai_id = ''p'', ai_addrs = [''y'']\<rparr>].
        \<exists>!inst. lookup_peer pf' inst (ai_id ai) \<noteq> None) \<and>
     (\<forall>inst pid. lookup_peer pf' inst pid = (if assignments s' pid = Some inst
        then latest [\<lparr>ai_id = ''p'', ai_addrs = [''x'']\<rparr>, \<lparr>ai_id = ''p'', ai_addrs = [''y'']\<rparr>] pid else None))"
  by (rule add_all_keeps_every_peer) (simp add: NewSharedPeerSet_def)

end
