(* ===== verification/Sibling_Gater.thy ===== *)
theory Sibling_Gater
  imports Shared_Peer_Set Libp2p_Env
begin

text \<open>
  \<^verbatim>\<open>node/gater.go\<close> and \<^verbatim>\<open>node/inbound.go\<close>: the connection gater of an instance and the handler of its
  connectedness events.  Both act on the SharedPeerSet all instances share, which is passed
  and returned.
\<close>

section \<open>The gater\<close>

datatype direction = DirUnknown | DirInbound | DirOutbound

record SiblingGater =
  siblingIDs :: "peer_id set"
  myName :: string

definition NewSiblingGater :: "string \<Rightarrow> peer_id list \<Rightarrow> SiblingGater" where
  "NewSiblingGater name sibs = \<lparr>siblingIDs = fold insert sibs {}, myName = name\<rparr>"

definition InterceptPeerDial :: "SiblingGater \<Rightarrow> peer_id \<Rightarrow> bool" where
  "InterceptPeerDial g p = (\<not> p \<in> siblingIDs g)"

definition InterceptAddrDial :: "SiblingGater \<Rightarrow> peer_id \<Rightarrow> string \<Rightarrow> bool" where
  "InterceptAddrDial g p addr = True"

definition InterceptAccept :: "SiblingGater \<Rightarrow> string \<Rightarrow> bool" where
  "InterceptAccept g addrs = True"

definition InterceptSecured ::
  "SiblingGater \<Rightarrow> SharedPeerSet \<Rightarrow> direction \<Rightarrow> peer_id \<Rightarrow> bool \<times> SharedPeerSet" where
  "InterceptSecured g s dir p =
     (if p \<in> siblingIDs g then (False, s)
      else if dir = DirOutbound then (True, s)
      else (case Claim s p (myName g) of ((owner, _), s') \<Rightarrow> (owner = myName g, s')))"

definition InterceptUpgraded :: "SiblingGater \<Rightarrow> peer_id \<Rightarrow> bool \<times> int" where
  "InterceptUpgraded g conn = (True, 0)"

section \<open>The inbound handler\<close>

text \<open>
  What one turn of the \<^verbatim>\<open>select\<close> receives: the context is done, the subscription is closed, or a
  connectedness event.  The handler returns the peers it closed, in order.
\<close>

datatype inbound_in = CtxDone | SubClosed | ConnChanged peer_id connectedness

definition handle_connected :: "string \<Rightarrow> SharedPeerSet \<Rightarrow> peer_id \<Rightarrow> connectedness \<Rightarrow> bool \<times> SharedPeerSet" where
  "handle_connected inst s p c =
     (if c \<noteq> Connected then (False, s)
      else (case Claim s p inst of ((owner, _), s') \<Rightarrow> (owner \<noteq> inst, s')))"

fun inbound_loop :: "string \<Rightarrow> SharedPeerSet \<Rightarrow> inbound_in list \<Rightarrow> peer_id list \<times> SharedPeerSet" where
  "inbound_loop inst s [] = ([], s)"
| "inbound_loop inst s (CtxDone # evs) = ([], s)"
| "inbound_loop inst s (SubClosed # evs) = ([], s)"
| "inbound_loop inst s (ConnChanged p c # evs) =
     (case handle_connected inst s p c of (close, s1) \<Rightarrow>
      case inbound_loop inst s1 evs of (closed, s2) \<Rightarrow> (if close then p # closed else closed, s2))"

definition HandleInboundPeers ::
  "bool \<Rightarrow> string \<Rightarrow> SharedPeerSet \<Rightarrow> inbound_in list \<Rightarrow> peer_id list \<times> SharedPeerSet" where
  "HandleInboundPeers subscribe_ok inst s evs = (if \<not> subscribe_ok then ([], s) else inbound_loop inst s evs)"

section \<open>Laws\<close>

lemma NewSiblingGater_simps [simp]:
  "siblingIDs (NewSiblingGater name sibs) = set sibs"
  "myName (NewSiblingGater name sibs) = name"
proof -
  have "fold insert sibs A = A \<union> set sibs" for A :: "peer_id set"
    by (induction sibs arbitrary: A) auto
  then show "siblingIDs (NewSiblingGater name sibs) = set sibs"
    by (simp add: NewSiblingGater_def)
qed (simp add: NewSiblingGater_def)

lemma InterceptSecured_grows:
  assumes "InterceptSecured g s dir p = (ok, s')"
  shows "assignments s \<subseteq>\<^sub>m assignments s'"
  using assms sps.claim_grows [of s p "myName g"]
  by (auto simp: InterceptSecured_def split: if_splits prod.splits)

lemma InterceptSecured_frame:
  assumes "InterceptSecured g s dir p = (ok, s')"
  shows "instances s' = instances s" and "wf_sps s \<Longrightarrow> wf_sps s'"
    and "ran (assignments s') \<subseteq> insert (myName g) (ran (assignments s))"
  using assms
  by (auto simp: InterceptSecured_def Claim_def wf_sps_def ran_def split: if_splits prod.splits option.splits)

lemma InterceptSecured_inbound_owner:
  assumes "InterceptSecured g s dir p = (True, s')" and "dir \<noteq> DirOutbound"
  shows "assignments s' p = Some (myName g)"
  using assms
  by (auto simp: InterceptSecured_def Claim_def split: if_splits prod.splits option.splits)

lemma InterceptSecured_sibling: "InterceptSecured g s dir p = (True, s') \<Longrightarrow> p \<notin> siblingIDs g"
  by (auto simp: InterceptSecured_def split: if_splits)

lemma InterceptSecured_outbound: "InterceptSecured g s DirOutbound p = (ok, s') \<Longrightarrow> s' = s"
  by (auto simp: InterceptSecured_def split: if_splits)

lemma handle_connected_grows:
  "handle_connected inst s p c = (close, s') \<Longrightarrow> assignments s \<subseteq>\<^sub>m assignments s'"
  using sps.claim_grows [of s p inst] by (auto simp: handle_connected_def split: if_splits prod.splits)

lemma handle_connected_frame:
  assumes "handle_connected inst s p c = (close, s')"
  shows "instances s' = instances s" and "wf_sps s \<Longrightarrow> wf_sps s'"
    and "ran (assignments s') \<subseteq> insert inst (ran (assignments s))"
  using assms
  by (auto simp: handle_connected_def Claim_def wf_sps_def ran_def split: if_splits prod.splits option.splits)

lemma handle_connected_owner:
  assumes "handle_connected inst s p Connected = (close, s')"
  shows "close \<longleftrightarrow> assignments s' p \<noteq> Some inst" and "assignments s' p \<noteq> None"
    and "close \<Longrightarrow> assignments s p \<noteq> None \<and> assignments s p \<noteq> Some inst"
  using assms by (auto simp: handle_connected_def Claim_def split: option.splits)

text \<open>Runs of the handler: by computation induction on the loop.\<close>

lemma inbound_loop_grows: "inbound_loop inst s evs = (closed, s') \<Longrightarrow> assignments s \<subseteq>\<^sub>m assignments s'"
proof (induction inst s evs arbitrary: closed rule: inbound_loop.induct)
  case (4 inst s p c evs)
  then show ?case
    by (force split: prod.splits intro: map_le_trans handle_connected_grows)
qed auto

lemma inbound_loop_closed:
  "inbound_loop inst s evs = (closed, s') \<Longrightarrow> p \<in> set closed \<Longrightarrow> assignments s' p \<noteq> Some inst"
proof (induction inst s evs arbitrary: closed rule: inbound_loop.induct)
  case (4 inst s q c evs)
  obtain close s1 where h: "handle_connected inst s q c = (close, s1)" by force
  obtain cl where l: "inbound_loop inst s1 evs = (cl, s')"
    and closed: "closed = (if close then q # cl else cl)"
    using "4.prems"(1) h by (auto split: prod.splits)
  show ?case
  proof (cases "p \<in> set cl")
    case True
    with "4.IH" [OF h [symmetric] l] show ?thesis by blast
  next
    case False
    with closed "4.prems"(2) have "p = q" and close by (auto split: if_splits)
    moreover from this h have "c = Connected" by (auto simp: handle_connected_def split: if_splits)
    ultimately obtain ow where "assignments s1 p = Some ow" and "ow \<noteq> inst"
      using h handle_connected_owner by blast
    moreover have "assignments s1 \<subseteq>\<^sub>m assignments s'" using l by (rule inbound_loop_grows)
    ultimately show ?thesis by (auto dest: map_le_Some)
  qed
qed auto

lemma inbound_loop_kept:
  "inbound_loop inst s evs = (closed, s') \<Longrightarrow> CtxDone \<notin> set evs \<Longrightarrow> SubClosed \<notin> set evs \<Longrightarrow>
   ConnChanged p Connected \<in> set evs \<Longrightarrow> p \<notin> set closed \<Longrightarrow> assignments s' p = Some inst"
proof (induction inst s evs arbitrary: closed rule: inbound_loop.induct)
  case (4 inst s q c evs)
  obtain close s1 where h: "handle_connected inst s q c = (close, s1)" by force
  obtain cl where l: "inbound_loop inst s1 evs = (cl, s')"
    and closed: "closed = (if close then q # cl else cl)"
    using "4.prems"(1) h by (auto split: prod.splits)
  show ?case
  proof (cases "ConnChanged p Connected \<in> set evs")
    case True
    moreover have "p \<notin> set cl" using closed "4.prems"(5) by (auto split: if_splits)
    ultimately show ?thesis
      using "4.IH" [OF h [symmetric] l] "4.prems"(2,3) by auto
  next
    case False
    with "4.prems"(4,5) closed have "p = q" "c = Connected" "\<not> close" by (auto split: if_splits)
    with h have "assignments s1 p = Some inst" using handle_connected_owner by blast
    with inbound_loop_grows [OF l] show ?thesis by (rule map_le_Some)
  qed
qed auto

section \<open>Properties\<close>

text \<open>
  Two instances never both accept the same inbound peer.  If one instance's gater lets a
  non-outbound connection pass, then after any further calls on the shared set (by any
  instance) no gater of another name lets a non-outbound connection of that peer pass.
\<close>

lemma inbound_acceptance_exclusive:
  assumes "wf_sps s" and "myName g \<noteq> myName g'" and "dir \<noteq> DirOutbound" and "dir' \<noteq> DirOutbound"
    and "InterceptSecured g s dir p = (True, s1)" and "sps_run s1 ops = Inr s2"
  shows "fst (InterceptSecured g' s2 dir' p) = False"
proof -
  from assms(5,3) have "assignments s1 p = Some (myName g)"
    by (rule InterceptSecured_inbound_owner)
  with sps_run_grows [OF assms(6)] have "assignments s2 p = Some (myName g)"
    by (rule map_le_Some)
  then have "fst (fst (Claim s2 p (myName g'))) = myName g"
    by (rule sps.claim_known)
  with assms(2,4) show ?thesis
    by (auto simp: InterceptSecured_def split: prod.splits)
qed

lemma inbound_acceptance_exclusive_example:
  "fst (InterceptSecured (NewSiblingGater ''b'' [])
     \<lparr>assignments = [''p'' \<mapsto> ''a''], instances = [''a'', ''b''], nextIdx = 0\<rparr> DirInbound ''p'') = False"
  by (rule inbound_acceptance_exclusive
      [of "\<lparr>assignments = Map.empty, instances = [''a'', ''b''], nextIdx = 0\<rparr>" "NewSiblingGater ''a'' []"
          _ DirInbound _ "''p''" "\<lparr>assignments = [''p'' \<mapsto> ''a''], instances = [''a'', ''b''], nextIdx = 0\<rparr>" "[]"])
    (simp_all add: wf_sps_def InterceptSecured_def Claim_def)

text \<open>
  The inbound handler leaves the instance with owned peers only.  For every run of
  \<^verbatim>\<open>HandleInboundPeers\<close> that is not stopped by a done context or a closed subscription, a peer whose
  connection was reported is closed exactly when the shared set gives it to another
  instance; every other reported peer is owned by the instance when the run ends.
\<close>

lemma HandleInboundPeers_enforces_ownership:
  assumes "HandleInboundPeers True inst s evs = (closed, s')"
    and "CtxDone \<notin> set evs" and "SubClosed \<notin> set evs" and "ConnChanged p Connected \<in> set evs"
  shows "p \<in> set closed \<longleftrightarrow> assignments s' p \<noteq> Some inst"
  using assms inbound_loop_closed inbound_loop_kept
  by (simp add: HandleInboundPeers_def) blast

lemma HandleInboundPeers_enforces_ownership_example:
  "''p'' \<in> set [''p''] \<longleftrightarrow>
     assignments \<lparr>assignments = [''p'' \<mapsto> ''a''], instances = [''a'', ''b''], nextIdx = 0\<rparr> ''p'' \<noteq> Some ''b''"
  by (rule HandleInboundPeers_enforces_ownership
      [of "''b''" "\<lparr>assignments = [''p'' \<mapsto> ''a''], instances = [''a'', ''b''], nextIdx = 0\<rparr>"
          "[ConnChanged ''p'' Connected]"])
    (simp_all add: HandleInboundPeers_def handle_connected_def Claim_def)

end
