(* ===== verification/Instance_System.thy ===== *)
theory Instance_System
  imports Peer_Finder Sibling_Gater
begin

text \<open>
  The instances of a probe run together: one shared peer set, one finder, one gater and one
  inbound handler per instance (\<^verbatim>\<open>main.go\<close>, \<^verbatim>\<open>runProbe\<close>, steps 3 to 6).  A connection is secured by
  the gater before it is established, and an established connection is reported to the
  inbound handler; the libp2p documentation promises both.  With \<open>px = True\<close> other
  parts of libp2p may dial too (gossipsub's peer exchange): such a dial is outbound, so the
  gater lets it pass whoever owns the peer.
\<close>

section \<open>State and steps\<close>

record system =
  sy_reg :: SharedPeerSet
  sy_pf :: PeerFinder
  sy_gater :: "string \<rightharpoonup> SiblingGater"
  sy_dials :: "(string \<times> peer_id) set"
  sy_secured :: "(string \<times> peer_id) set"
  sy_conns :: "(string \<times> peer_id) set"
  sy_events :: "(string \<times> peer_id) set"

text \<open>\<^verbatim>\<open>runProbe\<close>: the gater of instance \<open>i\<close> knows the peer IDs of all other instances.\<close>

definition sibling_ids :: "peer_id list \<Rightarrow> nat \<Rightarrow> peer_id list" where
  "sibling_ids pids i = map snd (filter (\<lambda>(j, _). j \<noteq> i) (zip [0..<length pids] pids))"

definition make_gaters :: "string list \<Rightarrow> peer_id list \<Rightarrow> string \<rightharpoonup> SiblingGater" where
  "make_gaters names pids =
     map_of (map (\<lambda>i. (names ! i, NewSiblingGater (names ! i) (sibling_ids pids i))) [0..<length names])"

definition sys_init :: "string list \<Rightarrow> peer_id list \<Rightarrow> system res" where
  "sys_init names pids =
     res_bind (NewSharedPeerSet names) (\<lambda>s. Inr
       \<lparr>sy_reg = s, sy_pf = NewPeerFinder (map (\<lambda>n. (n, idle_host)) names),
        sy_gater = make_gaters names pids,
        sy_dials = {}, sy_secured = {}, sy_conns = {}, sy_events = {}\<rparr>)"

inductive sys_step :: "bool \<Rightarrow> system \<Rightarrow> system \<Rightarrow> bool" for px where
  discover: "AddPeer (sy_pf st) (sy_reg st) ai = Inr (pf', r') \<Longrightarrow>
     sys_step px st (st\<lparr>sy_pf := pf', sy_reg := r'\<rparr>)"
| pull: "GetPeers (sy_pf st) i cnt skip order rnd = Inr ais \<Longrightarrow> i \<in> dom (sy_gater st) \<Longrightarrow>
     peers (sy_pf st) i = Some m \<Longrightarrow> set order = dom m \<Longrightarrow>
     sys_step px st (st\<lparr>sy_dials := sy_dials st \<union> {i} \<times> ai_id ` set ais\<rparr>)"
| dial: "(i, p) \<in> sy_dials st \<Longrightarrow> sy_gater st i = Some g \<Longrightarrow> InterceptPeerDial g p \<Longrightarrow>
     InterceptSecured g (sy_reg st) DirOutbound p = (True, r') \<Longrightarrow>
     sys_step px st (st\<lparr>sy_reg := r', sy_secured := insert (i, p) (sy_secured st)\<rparr>)"
| other_dial: "px \<Longrightarrow> sy_gater st i = Some g \<Longrightarrow> InterceptPeerDial g p \<Longrightarrow>
     InterceptSecured g (sy_reg st) DirOutbound p = (True, r') \<Longrightarrow>
     sys_step px st (st\<lparr>sy_reg := r', sy_secured := insert (i, p) (sy_secured st)\<rparr>)"
| accept: "sy_gater st i = Some g \<Longrightarrow> dir \<noteq> DirOutbound \<Longrightarrow>
     InterceptSecured g (sy_reg st) dir p = (True, r') \<Longrightarrow>
     sys_step px st (st\<lparr>sy_reg := r', sy_secured := insert (i, p) (sy_secured st)\<rparr>)"
| reject: "sy_gater st i = Some g \<Longrightarrow> InterceptSecured g (sy_reg st) dir p = (False, r') \<Longrightarrow>
     sys_step px st (st\<lparr>sy_reg := r'\<rparr>)"
| establish: "(i, p) \<in> sy_secured st \<Longrightarrow>
     sys_step px st (st\<lparr>sy_secured := sy_secured st - {(i, p)}, sy_conns := insert (i, p) (sy_conns st),
       sy_events := (if (i, p) \<in> sy_conns st then sy_events st else insert (i, p) (sy_events st))\<rparr>)"
| abort: "sys_step px st (st\<lparr>sy_secured := sy_secured st - {(i, p)}\<rparr>)"
| event: "(i, p) \<in> sy_events st \<Longrightarrow> handle_connected i (sy_reg st) p Connected = (close, r') \<Longrightarrow>
     sys_step px st (st\<lparr>sy_reg := r', sy_events := sy_events st - {(i, p)},
       sy_conns := (if close then sy_conns st - {(i, p)} else sy_conns st)\<rparr>)"
| disconnect: "sys_step px st (st\<lparr>sy_conns := sy_conns st - {(i, p)}\<rparr>)"

inductive sys_reach :: "bool \<Rightarrow> system \<Rightarrow> system \<Rightarrow> bool" for px st0 where
  start: "sys_reach px st0 st0"
| step: "sys_reach px st0 st \<Longrightarrow> sys_step px st st' \<Longrightarrow> sys_reach px st0 st'"

section \<open>Invariants\<close>

definition owned :: "system \<Rightarrow> (string \<times> peer_id) set" where
  "owned st = {(i, p). assignments (sy_reg st) p = Some i}"

definition gaters_ok :: "system \<Rightarrow> bool" where
  "gaters_ok st \<longleftrightarrow> (\<forall>i g. sy_gater st i = Some g \<longrightarrow> myName g = i)"

definition not_sibling :: "system \<Rightarrow> (string \<times> peer_id) set" where
  "not_sibling st = {(i, p). \<exists>g. sy_gater st i = Some g \<and> p \<notin> siblingIDs g}"

text \<open>What holds with other diallers, and the stronger statement without them.\<close>

definition sys_inv :: "bool \<Rightarrow> system \<Rightarrow> bool" where
  "sys_inv px st \<longleftrightarrow>
     pf_inv (sy_pf st) (sy_reg st) \<and> gaters_ok st \<and>
     sy_dials st \<subseteq> owned st \<and>
     sy_secured st \<union> sy_conns st \<subseteq> not_sibling st \<and>
     sy_conns st \<subseteq> owned st \<union> sy_events st \<and>
     (\<not> px \<longrightarrow> sy_secured st \<union> sy_conns st \<subseteq> owned st)"

lemma owned_mono:
  "assignments (sy_reg st) \<subseteq>\<^sub>m assignments (sy_reg st') \<Longrightarrow> owned st \<subseteq> owned st'"
  by (auto simp: owned_def dest: map_le_Some)

lemma sys_inv_reg:
  assumes "sys_inv px st" and "assignments (sy_reg st) \<subseteq>\<^sub>m assignments r'" and "wf_sps r'"
  shows "sys_inv px (st\<lparr>sy_reg := r'\<rparr>)"
proof -
  have "owned st \<subseteq> owned (st\<lparr>sy_reg := r'\<rparr>)" using assms(2) by (intro owned_mono) simp
  moreover have "pf_inv (sy_pf st) r'"
    using assms by (auto simp: sys_inv_def intro: pf_inv_grow)
  ultimately show ?thesis
    using assms(1) by (auto simp: sys_inv_def gaters_ok_def not_sibling_def)
qed

lemma sys_inv_secure:
  assumes "sys_inv px st" and "sy_gater st i = Some g"
    and "InterceptSecured g (sy_reg st) dir p = (True, r')"
    and "px \<or> (i, p) \<in> owned (st\<lparr>sy_reg := r'\<rparr>)"
  shows "sys_inv px (st\<lparr>sy_reg := r', sy_secured := insert (i, p) (sy_secured st)\<rparr>)"
proof -
  have "wf_sps r'" using assms(1,3) InterceptSecured_frame(2) by (auto simp: sys_inv_def pf_inv_def)
  then have "sys_inv px (st\<lparr>sy_reg := r'\<rparr>)"
    using assms(1) InterceptSecured_grows [OF assms(3)] by (intro sys_inv_reg)
  moreover have "p \<notin> siblingIDs g" using assms(3) by (rule InterceptSecured_sibling)
  ultimately show ?thesis
    using assms(2,4) by (auto simp: sys_inv_def gaters_ok_def not_sibling_def owned_def)
qed

lemma sys_step_inv:
  assumes "sys_step px st st'" and inv: "sys_inv px st"
  shows "sys_inv px st'"
  using assms(1)
proof cases
  case (discover ai pf' r')
  from inv have pf: "pf_inv (sy_pf st) (sy_reg st)" by (simp add: sys_inv_def)
  with discover have "pf_inv pf' r'" and "wf_sps r'" using AddPeer_inv pf_invD(3) by blast+
  moreover have "sys_inv px (st\<lparr>sy_reg := r'\<rparr>)"
    using inv discover \<open>wf_sps r'\<close> AddPeer_grows by (blast intro: sys_inv_reg)
  ultimately show ?thesis
    using discover by (auto simp: sys_inv_def gaters_ok_def not_sibling_def owned_def)
next
  case (pull i cnt skip order rnd ais m)
  have "{i} \<times> ai_id ` set ais \<subseteq> owned st"
  proof -
    from inv have "pf_inv (sy_pf st) (sy_reg st)" by (simp add: sys_inv_def)
    then have "assignments (sy_reg st) (ai_id ai) = Some i" if "ai \<in> set ais" for ai
      using pull that by (blast intro: GetPeers_owned)
    then show ?thesis by (auto simp: owned_def)
  qed
  with pull inv show ?thesis by (auto simp: sys_inv_def gaters_ok_def not_sibling_def owned_def)
next
  case (dial i p g r')
  from dial inv have "(i, p) \<in> owned (st\<lparr>sy_reg := r'\<rparr>)"
    by (auto simp: sys_inv_def owned_def dest: InterceptSecured_outbound)
  with dial inv show ?thesis by (auto intro: sys_inv_secure)
next
  case (other_dial i g p r')
  with inv show ?thesis by (auto intro: sys_inv_secure)
next
  case (accept i g dir p r')
  have "myName g = i" using accept inv by (auto simp: sys_inv_def gaters_ok_def)
  then have "(i, p) \<in> owned (st\<lparr>sy_reg := r'\<rparr>)"
    using accept InterceptSecured_inbound_owner by (auto simp: owned_def)
  with accept inv show ?thesis by (auto intro: sys_inv_secure)
next
  case (reject i g dir p r')
  have "wf_sps r'" using inv reject InterceptSecured_frame(2) by (auto simp: sys_inv_def pf_inv_def)
  with reject inv show ?thesis by (auto intro: sys_inv_reg InterceptSecured_grows)
next
  case (event i p close r')
  have "wf_sps r'" using inv event handle_connected_frame(2) by (auto simp: sys_inv_def pf_inv_def)
  then have inv': "sys_inv px (st\<lparr>sy_reg := r'\<rparr>)"
    using inv event handle_connected_grows by (blast intro: sys_inv_reg)
  from event have h: "handle_connected i (sy_reg st) p Connected = (close, r')" by simp
  have "\<not> close \<Longrightarrow> (i, p) \<in> owned (st\<lparr>sy_reg := r'\<rparr>)"
    using handle_connected_owner(1) [OF h] by (simp add: owned_def)
  with event inv' show ?thesis
    by (auto simp: sys_inv_def gaters_ok_def not_sibling_def owned_def)
qed (use inv in \<open>auto simp: sys_inv_def gaters_ok_def not_sibling_def owned_def\<close>)

lemma make_gaters_Some:
  assumes "distinct names" and "length pids = length names"
  shows "make_gaters names pids i = Some g \<longleftrightarrow>
     (\<exists>k < length names. i = names ! k \<and> g = NewSiblingGater i (sibling_ids pids k))"
proof -
  have "distinct (map fst (map (\<lambda>k. (names ! k, NewSiblingGater (names ! k) (sibling_ids pids k))) [0..<length names]))"
    using assms(1) by (simp add: comp_def map_nth)
  then show ?thesis
    by (auto simp: make_gaters_def simp flip: map_map dest!: map_of_SomeD intro!: map_of_is_SomeI)
qed

lemma sys_init_inv:
  assumes "sys_init names pids = Inr st" and "distinct names" and "length pids = length names"
  shows "sys_inv px st"
proof -
  from assms(1) obtain s where s: "NewSharedPeerSet names = Inr s"
    and st: "st = \<lparr>sy_reg = s, sy_pf = NewPeerFinder (map (\<lambda>n. (n, idle_host)) names),
        sy_gater = make_gaters names pids,
        sy_dials = {}, sy_secured = {}, sy_conns = {}, sy_events = {}\<rparr>"
    by (auto simp: sys_init_def res_bind_Inr_iff)
  have "pf_ok (NewPeerFinder (map (\<lambda>n. (n, idle_host)) names), s)"
    using s by (intro New_pf_ok) (simp add: comp_def)
  with st show ?thesis
    by (auto simp: sys_inv_def pf_ok_def gaters_ok_def make_gaters_Some [OF assms(2,3)])
qed

lemma sys_reach_inv: "sys_reach px st0 st \<Longrightarrow> sys_inv px st0 \<Longrightarrow> sys_inv px st"
  by (induction rule: sys_reach.induct) (auto intro: sys_step_inv)

lemma sys_step_gater: "sys_step px st st' \<Longrightarrow> sy_gater st' = sy_gater st"
  by (induction rule: sys_step.induct) auto

lemma sys_reach_gater: "sys_reach px st0 st \<Longrightarrow> sy_gater st = sy_gater st0"
  by (induction rule: sys_reach.induct) (auto dest: sys_step_gater)

lemma set_sibling_ids: "k < length pids \<Longrightarrow> set (sibling_ids pids k) = {pids ! j | j. j < length pids \<and> j \<noteq> k}"
  by (force simp: sibling_ids_def set_zip)

section \<open>A concrete run\<close>

text \<open>Two instances; a peer connects to the first one from outside.\<close>

definition demo_init :: system where
  "demo_init = \<lparr>sy_reg = \<lparr>assignments = Map.empty, instances = [''a'', ''b''], nextIdx = 0\<rparr>,
     sy_pf = NewPeerFinder [(''a'', idle_host), (''b'', idle_host)],
     sy_gater = make_gaters [''a'', ''b''] [''A'', ''B''],
     sy_dials = {}, sy_secured = {}, sy_conns = {}, sy_events = {}\<rparr>"

definition demo_settled :: system where
  "demo_settled = demo_init\<lparr>sy_reg := \<lparr>assignments = [''p'' \<mapsto> ''a''], instances = [''a'', ''b''], nextIdx = 0\<rparr>,
     sy_conns := {(''a'', ''p'')}\<rparr>"

lemma demo_init: "sys_init [''a'', ''b''] [''A'', ''B''] = Inr demo_init"
  by (simp add: sys_init_def demo_init_def NewSharedPeerSet_def)

lemma demo_reach: "sys_reach px demo_init demo_settled"
proof -
  let ?r = "\<lparr>assignments = [''p'' \<mapsto> ''a''], instances = [''a'', ''b''], nextIdx = 0\<rparr>"
  let ?g = "NewSiblingGater ''a'' [''B'']"
  let ?s1 = "demo_init\<lparr>sy_reg := ?r, sy_secured := {(''a'', ''p'')}\<rparr>"
  let ?s2 = "demo_init\<lparr>sy_reg := ?r, sy_conns := {(''a'', ''p'')}, sy_events := {(''a'', ''p'')}\<rparr>"
  have g: "sy_gater demo_init ''a'' = Some ?g"
    by (simp add: demo_init_def make_gaters_def sibling_ids_def)
  have "sys_step px demo_init (demo_init\<lparr>sy_reg := ?r, sy_secured := insert (''a'', ''p'') (sy_secured demo_init)\<rparr>)"
    by (rule sys_step.accept [OF g, of DirInbound])
      (simp_all add: InterceptSecured_def Claim_def demo_init_def)
  then have "sys_reach px demo_init ?s1"
    using sys_reach.step [OF sys_reach.start] by (simp add: demo_init_def)
  moreover have "sys_step px ?s1 ?s2"
    using sys_step.establish [of "''a''" "''p''" ?s1] by (simp add: demo_init_def)
  moreover have "sys_step px ?s2 demo_settled"
    using sys_step.event [of "''a''" "''p''" ?s2 False ?r]
    by (simp add: demo_init_def demo_settled_def handle_connected_def Claim_def)
  ultimately show ?thesis by (blast intro: sys_reach.step)
qed

section \<open>Properties\<close>

text \<open>
  C1: the instances observe disjoint sets of peers.  When only the peer managers dial, no state
  the probe can reach has two instances connected to the same peer, and the inbound handler
  never has to close a connection: a peer that passed a gater cannot be given to another
  instance later.
\<close>

theorem instances_disjoint:
  assumes "sys_init names pids = Inr st0" and "distinct names" and "length pids = length names"
    and "sys_reach False st0 st"
  shows "((i, p) \<in> sy_conns st \<longrightarrow> (j, p) \<in> sy_conns st \<longrightarrow> i = j) \<and>
     ((i, p) \<in> sy_conns st \<longrightarrow> handle_connected i (sy_reg st) p Connected = (False, sy_reg st))"
proof -
  have "sys_inv False st"
    using sys_reach_inv [OF assms(4)] sys_init_inv [OF assms(1-3)] by blast
  then have "assignments (sy_reg st) q = Some k" if "(k, q) \<in> sy_conns st" for k q
    using that by (auto simp: sys_inv_def owned_def)
  from this [of i p] this [of j p] show ?thesis by (auto simp: handle_connected_def Claim_def)
qed

theorem instances_disjoint_witness:
  "(''a'', ''p'') \<in> sy_conns demo_settled \<and> (''b'', ''p'') \<notin> sy_conns demo_settled \<and>
   handle_connected ''a'' (sy_reg demo_settled) ''p'' Connected = (False, sy_reg demo_settled)"
proof -
  have "(''a'', ''p'') \<in> sy_conns demo_settled" by (simp add: demo_settled_def)
  then show ?thesis
    using instances_disjoint [OF demo_init _ _ demo_reach, of "''a''" "''p''" "''b''"] by auto
qed

text \<open>
  C5: with other diallers the inbound handler restores disjointness.  Even when other parts of
  libp2p dial peers of another instance, two instances are never both connected to a peer once
  their connectedness events for it have been handled.
\<close>

theorem settled_connections_disjoint:
  assumes "sys_init names pids = Inr st0" and "distinct names" and "length pids = length names"
    and "sys_reach True st0 st"
    and "(i, p) \<in> sy_conns st" and "(j, p) \<in> sy_conns st"
    and "(i, p) \<notin> sy_events st" and "(j, p) \<notin> sy_events st"
  shows "i = j"
proof -
  have "sys_inv True st"
    using sys_reach_inv [OF assms(4)] sys_init_inv [OF assms(1-3)] by blast
  then have "assignments (sy_reg st) q = Some k" if "(k, q) \<in> sy_conns st - sy_events st" for k q
    using that by (auto simp: sys_inv_def owned_def)
  from this [of i p] this [of j p] assms(5-8) show ?thesis by simp
qed

theorem settled_connections_disjoint_witness:
  "(''a'', ''p'') \<in> sy_conns demo_settled - sy_events demo_settled \<and>
   (''b'', ''p'') \<notin> sy_conns demo_settled - sy_events demo_settled"
proof -
  have "(''a'', ''p'') \<in> sy_conns demo_settled - sy_events demo_settled"
    by (simp add: demo_settled_def demo_init_def)
  then show ?thesis
    using settled_connections_disjoint [OF demo_init _ _ demo_reach, of "''a''" "''p''" "''b''"] by auto
qed

text \<open>
  C6: siblings never connect.  Whoever dials, no instance is ever connected to the peer ID of
  another instance of the same probe.
\<close>

theorem siblings_never_connect:
  assumes "sys_init names pids = Inr st0" and "distinct names" and "length pids = length names"
    and "sys_reach px st0 st" and "k < length names" and "l < length names" and "k \<noteq> l"
  shows "(names ! k, pids ! l) \<notin> sy_conns st"
proof
  assume c: "(names ! k, pids ! l) \<in> sy_conns st"
  have "sys_inv px st"
    using sys_reach_inv [OF assms(4)] sys_init_inv [OF assms(1-3)] by blast
  with c obtain g where g: "sy_gater st (names ! k) = Some g" and "pids ! l \<notin> siblingIDs g"
    by (auto simp: sys_inv_def not_sibling_def)
  moreover have "sy_gater st = make_gaters names pids"
    using sys_reach_gater [OF assms(4)] assms(1) by (auto simp: sys_init_def res_bind_Inr_iff)
  ultimately have "pids ! l \<notin> set (sibling_ids pids k)"
    using assms(2,3,5) by (auto simp: make_gaters_Some nth_eq_iff_index_eq)
  with assms(3,5-7) show False by (auto simp: set_sibling_ids)
qed

theorem siblings_never_connect_witness:
  "([''a'', ''b''] ! 0, [''A'', ''B''] ! 1) \<notin> sy_conns demo_settled"
  by (rule siblings_never_connect [OF demo_init _ _ demo_reach [of True]]) simp_all

end
