(* ===== verification/Simulation.thy ===== *)
theory Simulation
  imports Main
begin

text \<open>
  Forward simulation between step relations.  The concrete machine has an invariant and a function
  to the states of the abstract machine; a concrete step is an abstract step or changes nothing
  there.  Every run of the concrete machine is then a run of the abstract one, so an invariant of the
  abstract machine holds, seen through the function, in all reachable concrete states.
\<close>

locale simulation =
  fixes cstep :: "'c \<Rightarrow> 'c \<Rightarrow> bool"
    and astep :: "'a \<Rightarrow> 'a \<Rightarrow> bool"
    and abs :: "'c \<Rightarrow> 'a"
    and inv :: "'c \<Rightarrow> bool"
  assumes keeps: "inv c \<Longrightarrow> cstep c c' \<Longrightarrow> inv c'"
    and simulates: "inv c \<Longrightarrow> cstep c c' \<Longrightarrow> abs c' = abs c \<or> astep (abs c) (abs c')"
begin

lemma run_inv: "cstep\<^sup>*\<^sup>* c c' \<Longrightarrow> inv c \<Longrightarrow> inv c'"
  by (induction rule: rtranclp_induct) (auto intro: keeps)

lemma run_refines: "cstep\<^sup>*\<^sup>* c c' \<Longrightarrow> inv c \<Longrightarrow> astep\<^sup>*\<^sup>* (abs c) (abs c')"
proof (induction rule: rtranclp_induct)
  case (step d d')
  have "inv d" using run_inv step by blast
  from simulates [OF this step.hyps(2)] step show ?case by (auto intro: rtranclp.rtrancl_into_rtrancl)
qed simp

lemma run_invariant:
  assumes "cstep\<^sup>*\<^sup>* c c'" and "inv c"
    and "P (abs c)" and "\<And>a a'. P a \<Longrightarrow> astep a a' \<Longrightarrow> P a'"
  shows "P (abs c')"
proof -
  have "P a'" if "astep\<^sup>*\<^sup>* a a'" and "P a" for a a'
    using that by (induction rule: rtranclp_induct) (auto intro: assms(4))
  with run_refines [OF assms(1,2)] assms(3) show ?thesis by blast
qed

end

end
