(* ===== verification/Ownership_Spec.thy ===== *)
theory Ownership_Spec
  imports Instance_System Simulation
begin

text \<open>
  The specification of a multi-instance probe: every peer has at most one owner, which never
  changes, and at most one connection, which is to its owner.  The instances of \<open>Instance_System\<close>,
  with discovery, pulling, dialling, gaters and inbound handlers, implement it step by step.
\<close>

section \<open>The abstract machine\<close>

text \<open>A peer's owner and the instance it is connected to; that there is at most one is in the types.\<close>

record ownership =
  ow_owner :: "peer_id \<rightharpoonup> string"
  ow_link :: "peer_id \<rightharpoonup> string"

inductive own_step :: "string set \<Rightarrow> ownership \<Rightarrow> ownership \<Rightarrow> bool" for names where
  assign: "i \<in> names \<Longrightarrow> ow_owner a p = None \<Longrightarrow>
     own_step names a (a\<lparr>ow_owner := (ow_owner a)(p \<mapsto> i)\<rparr>)"
| connect: "ow_owner a p = Some i \<Longrightarrow> own_step names a (a\<lparr>ow_link := (ow_link a)(p \<mapsto> i)\<rparr>)"
| disconnect: "own_step names a (a\<lparr>ow_link := (ow_link a)(p := None)\<rparr>)"

definition own_init :: ownership where
  "own_init = \<lparr>ow_owner = Map.empty, ow_link = Map.empty\<rparr>"

definition own_inv :: "string set \<Rightarrow> ownership \<Rightarrow> bool" where
  "own_inv names a \<longleftrightarrow> ow_link a \<subseteq>\<^sub>m ow_owner a \<and> ran (ow_owner a) \<subseteq> names"

lemma own_inv_iff:
  "own_inv names a \<longleftrightarrow> (\<forall>p i. ow_link a p = Some i \<longrightarrow> ow_owner a p = Some i) \<and>
     (\<forall>p i. ow_owner a p = Some i \<longrightarrow> i \<in> names)"
  by (auto simp: own_inv_def map_le_def ran_def dom_def)

lemma own_step_inv: "own_inv names a \<Longrightarrow> own_step names a a' \<Longrightarrow> own_inv names a'"
  by (erule own_step.cases) (auto simp: own_inv_iff)

section \<open>The instances implement it\<close>

text \<open>The connection of a peer is the one to its owner, if that exists.\<close>

definition link_of :: "(peer_id \<rightharpoonup> string) \<Rightarrow> (string \<times> peer_id) set \<Rightarrow> peer_id \<rightharpoonup> string" where
  "link_of owner conns p = (case owner p of None \<Rightarrow> None | Some i \<Rightarrow> if (i, p) \<in> conns then Some i else None)"

definition own_abs :: "system \<Rightarrow> ownership" where
  "own_abs st =
     \<lparr>ow_owner = assignments (sy_reg st), ow_link = link_of (assignments (sy_reg st)) (sy_conns st)\<rparr>"

lemma link_of_iff: "link_of owner conns p = Some i \<longleftrightarrow> owner p = Some i \<and> (i, p) \<in> conns"
  by (auto simp: link_of_def split: option.splits)

definition own_rel :: "string set \<Rightarrow> system \<Rightarrow> bool" where
  "own_rel names st \<longleftrightarrow> sys_inv False st \<and> sy_events st \<subseteq> owned st \<and>
     set (instances (sy_reg st)) = names \<and> dom (sy_gater st) = names"

lemma own_abs_conns: "sys_inv False st \<Longrightarrow> sy_conns st = {(i, p). ow_link (own_abs st) p = Some i}"
  by (auto simp: own_abs_def sys_inv_def owned_def link_of_iff)

lemma own_rel_owned:
  assumes "own_rel names st"
  shows "(i, p) \<in> sy_secured st \<union> sy_conns st \<union> sy_events st \<Longrightarrow> assignments (sy_reg st) p = Some i"
  using assms by (auto simp: own_rel_def sys_inv_def owned_def)

text \<open>A change of the shared set that adds at most one owner.\<close>

lemma own_abs_assign:
  assumes "own_rel names st" and "i \<in> names"
    and "assignments r' = assignments (sy_reg st) \<or>
         (assignments (sy_reg st) p = None \<and> assignments r' = (assignments (sy_reg st))(p \<mapsto> i))"
  shows "own_abs (st\<lparr>sy_reg := r'\<rparr>) = own_abs st \<or> own_step names (own_abs st) (own_abs (st\<lparr>sy_reg := r'\<rparr>))"
  using assms(3)
proof
  assume "assignments r' = assignments (sy_reg st)"
  then show ?thesis by (simp add: own_abs_def)
next
  assume new: "assignments (sy_reg st) p = None \<and> assignments r' = (assignments (sy_reg st))(p \<mapsto> i)"
  then have "(i, p) \<notin> sy_conns st" using own_rel_owned [OF assms(1), of i p] by auto
  with new have "own_abs (st\<lparr>sy_reg := r'\<rparr>) = (own_abs st)\<lparr>ow_owner := (ow_owner (own_abs st))(p \<mapsto> i)\<rparr>"
    by (auto simp: own_abs_def fun_eq_iff link_of_def)
  with new assms(2) show ?thesis
    using own_step.assign [of i names "own_abs st" p] by (simp add: own_abs_def)
qed

lemma AddPeer_assigns:
  assumes "wf_sps s" and "AddPeer pf s ai = Inr (pf', s')"
  shows "\<exists>i \<in> set (instances s). assignments s' = assignments s \<or>
     (assignments s (ai_id ai) = None \<and> assignments s' = (assignments s)(ai_id ai \<mapsto> i))"
    and "instances s' = instances s"
proof -
  from assms(2) obtain ow where a: "AssignOrGet s (ai_id ai) = Inr (ow, s')" by (rule AddPeer_cases)
  show "instances s' = instances s" using sps.assign_names [OF a] .
  show "\<exists>i \<in> set (instances s). assignments s' = assignments s \<or>
     (assignments s (ai_id ai) = None \<and> assignments s' = (assignments s)(ai_id ai \<mapsto> i))"
  proof (cases "assignments s (ai_id ai)")
    case None
    with sps.assign_new [OF assms(1) a] sps.assign_owner [OF a] show ?thesis by auto
  next
    case (Some q)
    then have "assignments s' = assignments s"
      using sps.assign_owner [OF a] sps.assign_known [OF a] by (auto simp: fun_upd_idem)
    moreover have "hd (instances s) \<in> set (instances s)" using assms(1) by (auto simp: wf_sps_def)
    ultimately show ?thesis by blast
  qed
qed

lemma InterceptSecured_assigns:
  assumes "InterceptSecured g s dir p = (ok, s')"
  shows "(assignments s' = assignments s \<or>
      (assignments s p = None \<and> assignments s' = (assignments s)(p \<mapsto> myName g)))"
    and "instances s' = instances s"
  using assms by (auto simp: InterceptSecured_def Claim_def split: if_splits option.splits)

lemma handle_connected_owned:
  "assignments s p = Some i \<Longrightarrow> handle_connected i s p Connected = (close, s') \<Longrightarrow> \<not> close \<and> s' = s"
  by (auto simp: handle_connected_def Claim_def)

lemma own_rel_keeps:
  assumes rel: "own_rel names st" and step: "sys_step False st st'"
  shows "own_rel names st'"
proof -
  have inv: "sys_inv False st'" using rel sys_step_inv [OF step] by (simp add: own_rel_def)
  have wf: "wf_sps (sy_reg st)" using rel by (auto simp: own_rel_def sys_inv_def pf_inv_def)
  have "instances (sy_reg st') = instances (sy_reg st) \<and> sy_events st' \<subseteq> owned st'"
    using step
  proof cases
    case (discover ai pf' r')
    then have "owned st \<subseteq> owned st'" by (intro owned_mono) (auto dest: AddPeer_grows)
    with discover rel AddPeer_assigns(2) [OF wf] show ?thesis by (auto simp: own_rel_def)
  next
    case (dial i p g r')
    then have "owned st \<subseteq> owned st'" by (intro owned_mono) (auto dest: InterceptSecured_grows)
    with dial rel InterceptSecured_assigns(2) show ?thesis by (auto simp: own_rel_def)
  next
    case (accept i g dir p r')
    then have "owned st \<subseteq> owned st'" by (intro owned_mono) (auto dest: InterceptSecured_grows)
    with accept rel InterceptSecured_assigns(2) show ?thesis by (auto simp: own_rel_def)
  next
    case (reject i g dir p r')
    then have "owned st \<subseteq> owned st'" by (intro owned_mono) (auto dest: InterceptSecured_grows)
    with reject rel InterceptSecured_assigns(2) show ?thesis by (auto simp: own_rel_def)
  next
    case (establish i p)
    then have "assignments (sy_reg st) p = Some i" using own_rel_owned [OF rel] by blast
    with establish rel show ?thesis by (auto simp: own_rel_def owned_def)
  next
    case (event i p close r')
    then have "assignments (sy_reg st) p = Some i" using own_rel_owned [OF rel] by blast
    with event(3) have "r' = sy_reg st" using handle_connected_owned by blast
    with event(1) rel show ?thesis by (auto simp: own_rel_def owned_def)
  qed (use rel in \<open>auto simp: own_rel_def owned_def\<close>)
  with rel inv sys_step_gater [OF step] show ?thesis by (simp add: own_rel_def)
qed

lemma own_rel_gater:
  assumes "own_rel names st" and "sy_gater st i = Some g"
  shows "myName g = i" and "i \<in> names"
  using assms by (auto simp: own_rel_def sys_inv_def gaters_ok_def)

lemma own_abs_secured:
  assumes "own_rel names st" and "sy_gater st i = Some g" and "InterceptSecured g (sy_reg st) dir p = (ok, r')"
    and "own_abs st' = own_abs (st\<lparr>sy_reg := r'\<rparr>)"
  shows "own_abs st' = own_abs st \<or> own_step names (own_abs st) (own_abs st')"
  using own_abs_assign [OF assms(1) own_rel_gater(2) [OF assms(1,2)], of r' p]
    InterceptSecured_assigns(1) [OF assms(3)] own_rel_gater(1) [OF assms(1,2)] assms(4) by auto

lemma own_abs_connect:
  assumes "assignments (sy_reg st) p = Some i" and "sy_reg st' = sy_reg st" and "sy_conns st' = insert (i, p) (sy_conns st)"
  shows "own_step names (own_abs st) (own_abs st')"
proof -
  have "own_abs st' = (own_abs st)\<lparr>ow_link := (ow_link (own_abs st))(p \<mapsto> i)\<rparr>"
    using assms by (auto simp: own_abs_def fun_eq_iff link_of_def split: option.splits)
  moreover have "ow_owner (own_abs st) p = Some i" using assms(1) by (simp add: own_abs_def)
  ultimately show ?thesis using own_step.connect [of "own_abs st" p i names] by simp
qed

lemma own_abs_disconnect:
  assumes "sy_reg st' = sy_reg st" and "sy_conns st' = sy_conns st - {(i, p)}"
  shows "own_abs st' = own_abs st \<or> own_step names (own_abs st) (own_abs st')"
proof (cases "assignments (sy_reg st) p = Some i")
  case True
  with assms have "own_abs st' = (own_abs st)\<lparr>ow_link := (ow_link (own_abs st))(p := None)\<rparr>"
    by (auto simp: own_abs_def fun_eq_iff link_of_def split: option.splits)
  then show ?thesis using own_step.disconnect [of names "own_abs st" p] by simp
next
  case False
  with assms have "own_abs st' = own_abs st"
    by (auto simp: own_abs_def fun_eq_iff link_of_def split: option.splits)
  then show ?thesis ..
qed

lemma own_simulates:
  assumes rel: "own_rel names st" and step: "sys_step False st st'"
  shows "own_abs st' = own_abs st \<or> own_step names (own_abs st) (own_abs st')"
  using step
proof cases
  case (discover ai pf' r')
  have wf: "wf_sps (sy_reg st)" using rel by (auto simp: own_rel_def sys_inv_def pf_inv_def)
  from AddPeer_assigns(1) [OF wf discover(2)] rel obtain i where "i \<in> names"
    and "assignments r' = assignments (sy_reg st) \<or>
      (assignments (sy_reg st) (ai_id ai) = None \<and> assignments r' = (assignments (sy_reg st))(ai_id ai \<mapsto> i))"
    by (auto simp: own_rel_def)
  from own_abs_assign [OF rel this] discover(1) show ?thesis by (simp add: own_abs_def)
next
  case (dial i p g r')
  then show ?thesis by (intro own_abs_secured [OF rel]) (simp_all add: own_abs_def)
next
  case (accept i g dir p r')
  then show ?thesis by (intro own_abs_secured [OF rel]) (simp_all add: own_abs_def)
next
  case (reject i g dir p r')
  then show ?thesis by (intro own_abs_secured [OF rel]) simp_all
next
  case (establish i p)
  then have "assignments (sy_reg st) p = Some i" using own_rel_owned [OF rel] by blast
  from own_abs_connect [OF this, of st' names] establish(1) show ?thesis by simp
next
  case (event i p close r')
  then have "assignments (sy_reg st) p = Some i" using own_rel_owned [OF rel] by blast
  from handle_connected_owned [OF this event(3)] event(1) show ?thesis by (simp add: own_abs_def)
next
  case (disconnect i p)
  then show ?thesis by (intro own_abs_disconnect [of _ _ i p]) simp_all
qed (simp_all add: own_abs_def)

interpretation own: simulation "sys_step False" "own_step names" own_abs "own_rel names"
  by unfold_locales (fact own_rel_keeps, fact own_simulates)

lemma sys_reach_rtranclp: "sys_reach px st0 st \<Longrightarrow> (sys_step px)\<^sup>*\<^sup>* st0 st"
  by (induction rule: sys_reach.induct) (auto intro: rtranclp.rtrancl_into_rtrancl)

lemma rtranclp_sys_reach: "(sys_step px)\<^sup>*\<^sup>* st0 st \<Longrightarrow> sys_reach px st0 st"
  by (induction rule: rtranclp_induct) (auto intro: sys_reach.intros)

lemma own_rel_init:
  assumes "sys_init names pids = Inr st0" and "distinct names" and "length pids = length names"
  shows "own_rel (set names) st0" and "own_abs st0 = own_init"
proof -
  from assms(1) have st0: "set (instances (sy_reg st0)) = set names" "assignments (sy_reg st0) = Map.empty"
    "sy_events st0 = {}" "sy_gater st0 = make_gaters names pids"
    by (auto simp: sys_init_def res_bind_Inr_iff NewSharedPeerSet_def split: if_splits)
  moreover have "dom (make_gaters names pids) = set names"
    by (auto simp: make_gaters_Some [OF assms(2,3)] dom_def in_set_conv_nth)
  ultimately show "own_rel (set names) st0"
    using sys_init_inv [OF assms] by (simp add: own_rel_def)
  from st0(2) show "own_abs st0 = own_init" by (simp add: own_abs_def own_init_def link_of_def fun_eq_iff)
qed

section \<open>Property\<close>

text \<open>
  C3: the instances implement the ownership specification.  Every run of a probe in which the peer
  managers dial is, seen through its owners and its connections, a run of the machine that only
  assigns an owner to a peer without one, connects a peer to its owner, and disconnects; the view
  loses nothing, since the connections of the probe are exactly those of the machine; and the
  machine's owners are instances and its connections are to owners.
\<close>

theorem instances_refine_ownership:
  assumes "sys_init names pids = Inr st0" and "distinct names" and "length pids = length names"
    and "sys_reach False st0 st"
  shows "(own_step (set names))\<^sup>*\<^sup>* own_init (own_abs st) \<and>
     sy_conns st = {(i, p). ow_link (own_abs st) p = Some i} \<and>
     ow_owner (own_abs st) = assignments (sy_reg st) \<and>
     ow_link (own_abs st) \<subseteq>\<^sub>m ow_owner (own_abs st) \<and> ran (ow_owner (own_abs st)) \<subseteq> set names"
proof -
  note init = own_rel_init [OF assms(1-3)] and run = sys_reach_rtranclp [OF assms(4)]
  have "(own_step (set names))\<^sup>*\<^sup>* own_init (own_abs st)"
    using own.run_refines [OF run init(1)] init(2) by simp
  moreover have "own_inv (set names) (own_abs st)"
  proof (rule own.run_invariant [OF run init(1)])
    show "own_inv (set names) (own_abs st0)" unfolding init(2) by (simp add: own_inv_def own_init_def)
  qed (rule own_step_inv)
  moreover have "sy_conns st = {(i, p). ow_link (own_abs st) p = Some i}"
    using own.run_inv [OF run init(1)] by (intro own_abs_conns) (simp add: own_rel_def)
  moreover have "ow_owner (own_abs st) = assignments (sy_reg st)" by (simp add: own_abs_def)
  ultimately show ?thesis unfolding own_inv_def by (intro conjI) (erule conjE, assumption)+
qed

theorem instances_refine_ownership_witness:
  "(own_step {''a'', ''b''})\<^sup>*\<^sup>* own_init (own_abs demo_settled) \<and>
   ow_link (own_abs demo_settled) ''p'' = Some ''a''"
proof -
  have "(own_step (set [''a'', ''b'']))\<^sup>*\<^sup>* own_init (own_abs demo_settled)"
    using instances_refine_ownership [OF demo_init _ _ demo_reach] by simp
  then show ?thesis by (simp add: own_abs_def demo_settled_def link_of_def)
qed

end
