(* ===== verification/Peer_Manager.thy ===== *)
theory Peer_Manager
  imports Peer_Finder
begin

text \<open>
  \<^verbatim>\<open>node/peermanager.go\<close>, the operations of one PeerManager: back-off bookkeeping, the skip and
  capacity tests, and the handling of one dial candidate.  The main loop \<^verbatim>\<open>Run\<close> with its
  goroutines is the theory \<open>Dial_Loop\<close>.  Arguments stand for what is outside the
  repository: the string form of a peer ID (\<open>id_str\<close>), the clock readings, the host's view
  of the network and the outcome of \<^verbatim>\<open>host.Connect\<close>.
\<close>

section \<open>Constants and state\<close>

definition maxConcurrentDials :: nat where "maxConcurrentDials = 500"
definition dialTimeout :: duration where "dialTimeout = 4 * Second"
definition initialBackoff :: duration where "initialBackoff = 30 * Second"
definition maxBackoff :: duration where "maxBackoff = 30 * Minute"
definition peerCheckInterval :: duration where "peerCheckInterval = 10 * Second"
definition pullInterval :: duration where "pullInterval = 500 * Millisecond"
definition pullBatch :: int where "pullBatch = 50"

lemmas pm_consts = initialBackoff_def maxBackoff_def go_time

record backoffEntry =
  failCount :: int
  nextDial :: time

record PeerManager =
  maxPeers :: int
  instanceName :: string
  backoff :: "peer_id \<rightharpoonup> backoffEntry"
  DialBackoffs :: nat
  DialAttempts :: nat

definition NewPeerManager :: "int \<Rightarrow> string \<Rightarrow> PeerManager" where
  "NewPeerManager mp name =
     \<lparr>maxPeers = mp, instanceName = name, backoff = Map.empty, DialBackoffs = 0, DialAttempts = 0\<rparr>"

section \<open>Operations\<close>

definition inBackoff :: "PeerManager \<Rightarrow> time \<Rightarrow> peer_id \<Rightarrow> bool" where
  "inBackoff pm now pid =
     (case backoff pm pid of None \<Rightarrow> False | Some entry \<Rightarrow> time_before now (nextDial entry))"

definition shouldSkip :: "host_net \<Rightarrow> PeerManager \<Rightarrow> time \<Rightarrow> peer_id \<Rightarrow> bool" where
  "shouldSkip h pm now pid = (if host_connected h pid then True else inBackoff pm now pid)"

text \<open>
  \<^verbatim>\<open>tooManyInFlight\<close> reads the number of connected peers first and the in-flight counter after it; both
  values are arguments, since anything may happen in between.
\<close>

definition tooManyInFlight :: "PeerManager \<Rightarrow> nat \<Rightarrow> int \<Rightarrow> bool" where
  "tooManyInFlight pm npeers infl =
     (if maxPeers pm = 0 then False else wrap64 (int npeers + infl) \<ge> wrap64 (maxPeers pm + 20))"

definition backoff_for :: "int \<Rightarrow> duration res" where
  "backoff_for fc =
     res_bind (go_shl1 (min (wrap64 (fc - 1)) 10)) (\<lambda>m. Inr (min (wrap64 (initialBackoff * m)) maxBackoff))"

definition recordFailure :: "(peer_id \<Rightarrow> string) \<Rightarrow> PeerManager \<Rightarrow> time \<Rightarrow> peer_id \<Rightarrow> PeerManager res" where
  "recordFailure id_str pm now pid =
     (let fc0 = (case backoff pm pid of Some entry \<Rightarrow> failCount entry | None \<Rightarrow> 0);
          fc = wrap64 (fc0 + 1)
      in res_bind (backoff_for fc) (\<lambda>b.
           let pm' = pm\<lparr>backoff := (backoff pm)(pid \<mapsto> \<lparr>failCount = fc, nextDial = time_add now b\<rparr>)\<rparr>
           in res_bind (str_slice_to (id_str pid) 16) (\<lambda>_. Inr pm')))"

definition clearBackoff :: "PeerManager \<Rightarrow> peer_id \<Rightarrow> PeerManager" where
  "clearBackoff pm pid = pm\<lparr>backoff := (backoff pm)(pid := None)\<rparr>"

definition BackoffDuration :: "PeerManager \<Rightarrow> time \<Rightarrow> peer_id \<Rightarrow> duration" where
  "BackoffDuration pm now pid =
     (case backoff pm pid of
        None \<Rightarrow> 0
      | Some entry \<Rightarrow> (let d = time_sub (nextDial entry) now in if d < 0 then 0 else d))"

definition Status :: "host_net \<Rightarrow> PeerManager \<Rightarrow> string" where
  "Status h pm =
     ''peers='' @ dec_nat (length (net_peers h)) @ ''/'' @ dec_int (maxPeers pm) @
     '' backoff='' @ dec_nat (card (dom (backoff pm)))"

text \<open>
  A candidate passes three checks before it is dialled, each with a reading of its own: whether the
  peer is connected (\<open>h1\<close>), whether it is held back (at \<open>now\<close>), and whether the host is at its cap
  (\<open>h2\<close>).  The outcome of the dial then updates the back-off.
\<close>

datatype cand_decision = AlreadyConnected | SkippedBackoff | AtCap | Dial

definition atCap :: "host_net \<Rightarrow> PeerManager \<Rightarrow> bool" where
  "atCap h pm \<longleftrightarrow> maxPeers pm > 0 \<and> int (length (net_peers h)) \<ge> maxPeers pm"

definition cand_finish :: "(peer_id \<Rightarrow> string) \<Rightarrow> bool \<Rightarrow> time \<Rightarrow> PeerManager \<Rightarrow> peer_id \<Rightarrow> PeerManager res" where
  "cand_finish id_str connected now pm pid =
     (if \<not> connected
      then res_bind (recordFailure id_str pm now pid) (\<lambda>pm'.
           res_bind (str_slice_to (id_str pid) 16) (\<lambda>_. Inr pm'))
      else let pm' = clearBackoff pm pid
           in res_bind (str_slice_to (id_str pid) 16) (\<lambda>_. Inr pm'))"

definition handleCandidate ::
  "(peer_id \<Rightarrow> string) \<Rightarrow> host_net \<Rightarrow> time \<Rightarrow> host_net \<Rightarrow> (AddrInfo \<Rightarrow> bool) \<Rightarrow> time \<Rightarrow> PeerManager \<Rightarrow> AddrInfo
     \<Rightarrow> (cand_decision \<times> PeerManager) res" where
  "handleCandidate id_str h1 now h2 connect now' pm ai =
     (if host_connected h1 (ai_id ai) then Inr (AlreadyConnected, pm)
      else if inBackoff pm now (ai_id ai) then Inr (SkippedBackoff, pm\<lparr>DialBackoffs := DialBackoffs pm + 1\<rparr>)
      else if atCap h2 pm then Inr (AtCap, pm)
      else res_bind (cand_finish id_str (connect ai) now' (pm\<lparr>DialAttempts := DialAttempts pm + 1\<rparr>) (ai_id ai))
             (\<lambda>pm'. Inr (Dial, pm')))"

text \<open>A run of failures of one peer at the given times.\<close>

fun record_failures :: "(peer_id \<Rightarrow> string) \<Rightarrow> PeerManager \<Rightarrow> peer_id \<Rightarrow> time list \<Rightarrow> PeerManager res" where
  "record_failures id_str pm pid [] = Inr pm"
| "record_failures id_str pm pid (t # ts) =
     res_bind (recordFailure id_str pm t pid) (\<lambda>pm'. record_failures id_str pm' pid ts)"

section \<open>The back-off schedule\<close>

definition backoff_spec :: "nat \<Rightarrow> duration" where
  "backoff_spec k = min (30 * Second * 2 ^ (k - 1)) (30 * Minute)"

lemma backoff_for_spec:
  assumes "1 \<le> fc" and "in_int64 fc"
  shows "backoff_for fc = Inr (backoff_spec (nat fc))"
proof -
  let ?e = "min (fc - 1) 10"
  have in64: "in_int64 (fc - 1)" and e: "0 \<le> ?e" "nat ?e \<le> 10"
    using assms by (auto simp: in_int64_def)
  have range: "in_int64 x \<and> in_int64 (initialBackoff * x)" if "1 \<le> x" and "x \<le> 1024" for x :: int
    using that by (auto simp: in_int64_def pm_consts)
  have "(2::int) ^ nat ?e \<le> 2 ^ 10" using e(2) by (rule power_increasing) simp
  then have small: "in_int64 (2 ^ nat ?e)" "in_int64 (initialBackoff * 2 ^ nat ?e)"
    using range [of "2 ^ nat ?e"] by simp_all
  have b: "backoff_for fc = Inr (min (initialBackoff * 2 ^ nat ?e) maxBackoff)"
    using e in64 small by (simp add: backoff_for_def go_shl1_def)
  show ?thesis
  proof (cases "fc \<le> 11")
    case True
    then have "?e = fc - 1" and "nat (fc - 1) = nat fc - 1" using assms by linarith+
    with b show ?thesis by (simp add: backoff_spec_def pm_consts)
  next
    case False
    then have "?e = 10" and "10 \<le> nat fc - 1" by auto
    moreover from this(2) have "(2::int) ^ 10 \<le> 2 ^ (nat fc - 1)"
      by (rule power_increasing) simp
    ultimately show ?thesis
      using b by (simp add: backoff_spec_def pm_consts min_def)
  qed
qed

lemma backoff_spec_bounds: "30 * Second \<le> backoff_spec k \<and> backoff_spec k \<le> 30 * Minute"
proof -
  have "(1::int) \<le> 2 ^ (k - 1)" by simp
  then show ?thesis by (auto simp: backoff_spec_def go_time min_def)
qed

lemma backoff_spec_mono: "j \<le> k \<Longrightarrow> backoff_spec j \<le> backoff_spec k"
proof -
  assume "j \<le> k"
  then have "(2::int) ^ (j - 1) \<le> 2 ^ (k - 1)" by (intro power_increasing) auto
  then show ?thesis
    unfolding backoff_spec_def by (intro min.mono mult_left_mono) (auto simp: go_time)
qed

lemma recordFailure_eq:
  assumes "16 \<le> length (id_str pid)"
    and "fc = (case backoff pm pid of Some entry \<Rightarrow> failCount entry | None \<Rightarrow> 0)"
    and "0 \<le> fc" and "fc < 2 ^ 63 - 1"
  shows "recordFailure id_str pm now pid =
     Inr (pm\<lparr>backoff := (backoff pm)(pid \<mapsto>
        \<lparr>failCount = fc + 1, nextDial = now + backoff_spec (nat (fc + 1))\<rparr>)\<rparr>)"
proof -
  have "in_int64 (fc + 1)" using assms(3,4) by (auto simp: in_int64_def)
  moreover from this have "backoff_for (fc + 1) = Inr (backoff_spec (nat (fc + 1)))"
    using assms(3) by (intro backoff_for_spec) auto
  ultimately show ?thesis
    using assms by (simp add: recordFailure_def Let_def str_slice_to_def time_add_def)
qed

lemma record_failures_eq:
  assumes "16 \<le> length (id_str pid)" and "backoff pm pid = Some \<lparr>failCount = fc, nextDial = t0\<rparr>"
    and "0 \<le> fc" and "fc + int (length ts) < 2 ^ 63 - 1" and "ts \<noteq> []"
  shows "record_failures id_str pm pid ts =
     Inr (pm\<lparr>backoff := (backoff pm)(pid \<mapsto>
        \<lparr>failCount = fc + int (length ts), nextDial = last ts + backoff_spec (nat fc + length ts)\<rparr>)\<rparr>)"
  using assms(2-)
proof (induction ts arbitrary: pm fc t0)
  case (Cons t ts)
  let ?pm = "pm\<lparr>backoff := (backoff pm)(pid \<mapsto> \<lparr>failCount = fc + 1, nextDial = t + backoff_spec (nat (fc + 1))\<rparr>)\<rparr>"
  from Cons.prems assms(1) have step: "recordFailure id_str pm t pid = Inr ?pm"
    by (intro recordFailure_eq) auto
  show ?case
  proof (cases "ts = []")
    case True
    with step Cons.prems show ?thesis by (simp add: nat_add_distrib fun_upd_def)
  next
    case False
    then have "record_failures id_str ?pm pid ts = Inr (?pm\<lparr>backoff := (backoff ?pm)(pid \<mapsto>
        \<lparr>failCount = fc + 1 + int (length ts), nextDial = last ts + backoff_spec (nat (fc + 1) + length ts)\<rparr>)\<rparr>)"
      using Cons.prems by (intro Cons.IH) auto
    with step False Cons.prems show ?thesis by (simp add: nat_add_distrib algebra_simps) (simp add: fun_upd_def)
  qed
qed simp

section \<open>Properties\<close>

text \<open>
  C21: exponential back-off.  After \<open>n\<close> consecutive failures of a peer that had no back-off entry
  the next dial is allowed min(30s * 2^(n-1), 30min) after the last failure: never less than 30
  seconds, never more than 30 minutes, never shrinking with another failure, and other
  peers' entries are untouched.  No failure panics while the printed peer ID has 16 characters.
\<close>

theorem backoff_after_failures:
  assumes "16 \<le> length (id_str pid)" and "backoff pm pid = None" and "ts \<noteq> []" and "int (length ts) < 2 ^ 62"
  shows "\<exists>pm'. record_failures id_str pm pid ts = Inr pm' \<and>
     backoff pm' = (backoff pm)(pid \<mapsto>
       \<lparr>failCount = int (length ts), nextDial = last ts + min (30 * Second * 2 ^ (length ts - 1)) (30 * Minute)\<rparr>) \<and>
     30 * Second \<le> min (30 * Second * 2 ^ (length ts - 1)) (30 * Minute) \<and>
     min (30 * Second * 2 ^ (length ts - 1)) (30 * Minute) \<le> min (30 * Second * 2 ^ length ts) (30 * Minute)"
proof -
  obtain t ts' where ts: "ts = t # ts'" using assms(3) by (cases ts) auto
  let ?pm = "pm\<lparr>backoff := (backoff pm)(pid \<mapsto> \<lparr>failCount = 1, nextDial = t + backoff_spec 1\<rparr>)\<rparr>"
  have first: "recordFailure id_str pm t pid = Inr ?pm"
    using recordFailure_eq [of id_str pid 0 pm t] assms(1,2) by simp
  have "\<exists>pm'. record_failures id_str pm pid ts = Inr pm' \<and>
     backoff pm' = (backoff pm)(pid \<mapsto> \<lparr>failCount = int (length ts), nextDial = last ts + backoff_spec (length ts)\<rparr>)"
  proof (cases "ts' = []")
    case True
    with first ts show ?thesis by simp
  next
    case False
    then show ?thesis
      using record_failures_eq [of id_str pid ?pm 1 "t + backoff_spec 1" ts'] assms ts first by simp
  qed
  then show ?thesis
    using backoff_spec_bounds [of "length ts"] backoff_spec_mono [of "length ts" "Suc (length ts)"]
    by (simp add: backoff_spec_def)
qed

theorem backoff_after_failures_witness:
  "\<exists>pm'. record_failures (\<lambda>_. ''16Uiu2HAm1234567'') (NewPeerManager 80 ''a'') ''p'' [0, 40, 100] = Inr pm' \<and>
     backoff pm' = (backoff (NewPeerManager 80 ''a''))(''p'' \<mapsto>
       \<lparr>failCount = int (length [0, 40, 100 :: int]),
        nextDial = last [0, 40, 100] + min (30 * Second * 2 ^ (length [0, 40, 100 :: int] - 1)) (30 * Minute)\<rparr>) \<and>
     30 * Second \<le> min (30 * Second * 2 ^ (length [0, 40, 100 :: int] - 1)) (30 * Minute) \<and>
     min (30 * Second * 2 ^ (length [0, 40, 100 :: int] - 1)) (30 * Minute)
       \<le> min (30 * Second * 2 ^ length [0, 40, 100 :: int]) (30 * Minute)"
  by (rule backoff_after_failures) (simp_all add: NewPeerManager_def)

text \<open>
  \<^verbatim>\<open>BackoffDuration\<close> and \<^verbatim>\<open>inBackoff\<close> agree: at any instant the reported remaining back-off is
  positive exactly when the peer is held back, and it is never negative.
\<close>

lemma BackoffDuration_iff_inBackoff:
  "(0 < BackoffDuration pm now pid \<longleftrightarrow> inBackoff pm now pid) \<and> 0 \<le> BackoffDuration pm now pid"
  by (auto simp: BackoffDuration_def inBackoff_def Let_def time_sub_def time_before_def split: option.splits)

text \<open>
  C22: who is dialled, and what a failure costs.  \<^verbatim>\<open>handleCandidate\<close> dials exactly the peers that it sees
  unconnected, that are not in back-off, and for which the host is below its cap; every other
  candidate leaves the back-off of all peers and the count of attempts as they are.  A dial is counted once;
  if it succeeds the peer has no back-off entry left, and if it fails the peer is, for the next 30 seconds
  and in whatever state the host is then, skipped by the pull and refused by \<^verbatim>\<open>handleCandidate\<close>.
  No dial changes the entry of another peer.  The printed peer ID has 16 characters, and the
  failures counted so far are fewer than \<open>2 ^ 62\<close>.
\<close>

theorem dial_outcome:
  assumes "16 \<le> length (id_str (ai_id ai))"
    and "\<forall>entry. backoff pm (ai_id ai) = Some entry \<longrightarrow> 0 \<le> failCount entry \<and> failCount entry < 2 ^ 62"
  shows "\<exists>d pm'. handleCandidate id_str h1 now h2 connect now' pm ai = Inr (d, pm') \<and>
     (d = Dial \<longleftrightarrow> \<not> host_connected h1 (ai_id ai) \<and> \<not> inBackoff pm now (ai_id ai) \<and>
        (maxPeers pm \<le> 0 \<or> int (length (net_peers h2)) < maxPeers pm)) \<and>
     DialAttempts pm' = DialAttempts pm + (if d = Dial then 1 else 0) \<and>
     (\<forall>q. d \<noteq> Dial \<or> q \<noteq> ai_id ai \<longrightarrow> backoff pm' q = backoff pm q) \<and>
     (d = Dial \<longrightarrow> connect ai \<longrightarrow> backoff pm' (ai_id ai) = None) \<and>
     (d = Dial \<longrightarrow> \<not> connect ai \<longrightarrow> (\<forall>t h h' c t'. t < now' + 30 * Second \<longrightarrow> shouldSkip h pm' t (ai_id ai) \<and>
        (\<exists>d' pm''. handleCandidate id_str h t h' c t' pm' ai = Inr (d', pm'') \<and> d' \<noteq> Dial)))"
proof (cases "host_connected h1 (ai_id ai) \<or> inBackoff pm now (ai_id ai) \<or> atCap h2 pm")
  case True
  then show ?thesis by (auto simp: handleCandidate_def atCap_def)
next
  case False
  let ?fc = "case backoff pm (ai_id ai) of Some entry \<Rightarrow> failCount entry | None \<Rightarrow> 0"
  let ?pm = "pm\<lparr>DialAttempts := DialAttempts pm + 1\<rparr>"
  let ?pm' = "if connect ai then clearBackoff ?pm (ai_id ai)
    else ?pm\<lparr>backoff := (backoff pm)(ai_id ai \<mapsto> \<lparr>failCount = ?fc + 1, nextDial = now' + backoff_spec (nat (?fc + 1))\<rparr>)\<rparr>"
  have "0 \<le> ?fc" and "?fc < 2 ^ 63 - 1" using assms(2) by (auto split: option.splits)
  then have "handleCandidate id_str h1 now h2 connect now' pm ai = Inr (Dial, ?pm')"
    using False recordFailure_eq [of id_str "ai_id ai" ?fc ?pm now'] assms(1)
    by (auto simp: handleCandidate_def cand_finish_def str_slice_to_def)
  moreover have "inBackoff ?pm' t (ai_id ai)" if "t < now' + 30 * Second" "\<not> connect ai" for t
    using that backoff_spec_bounds [of "nat (?fc + 1)"] by (simp add: inBackoff_def time_before_def)
  then have "shouldSkip h ?pm' t (ai_id ai) \<and>
      (\<exists>d' pm''. handleCandidate id_str h t h' c t' ?pm' ai = Inr (d', pm'') \<and> d' \<noteq> Dial)"
    if "t < now' + 30 * Second" "\<not> connect ai" for t h h' c t'
    using that by (simp add: shouldSkip_def handleCandidate_def)
  ultimately show ?thesis
    using False by (intro exI [of _ Dial] exI [of _ ?pm']) (auto simp: atCap_def clearBackoff_def)
qed

text \<open>A dial of a manager with the cap 80 that fails, and one that is not made because 80 peers are connected.\<close>

theorem dial_outcome_witness:
  "(\<exists>pm'. handleCandidate (\<lambda>_. ''16Uiu2HAm1234567'') idle_host 0 idle_host (\<lambda>_. False) 4 (NewPeerManager 80 ''a'')
       \<lparr>ai_id = ''p'', ai_addrs = []\<rparr> = Inr (Dial, pm') \<and> shouldSkip idle_host pm' 5 ''p'') \<and>
   (\<exists>d pm'. handleCandidate (\<lambda>_. ''16Uiu2HAm1234567'') idle_host 0 (idle_host\<lparr>net_peers := replicate 80 ''q''\<rparr>) (\<lambda>_. False) 4
       (NewPeerManager 80 ''a'') \<lparr>ai_id = ''p'', ai_addrs = []\<rparr> = Inr (d, pm') \<and> d \<noteq> Dial)"
proof -
  let ?ids = "\<lambda>_ :: peer_id. ''16Uiu2HAm1234567''" and ?pm = "NewPeerManager 80 ''a''" and ?ai = "\<lparr>ai_id = ''p'', ai_addrs = []\<rparr>"
  have hyp: "16 \<le> length (?ids (ai_id ?ai))"
    "\<forall>entry. backoff ?pm (ai_id ?ai) = Some entry \<longrightarrow> 0 \<le> failCount entry \<and> failCount entry < 2 ^ 62"
    by (simp_all add: NewPeerManager_def)
  have free: "\<not> host_connected idle_host ''p''" "\<not> inBackoff ?pm 0 ''p''" "net_peers idle_host = []"
    by (simp_all add: idle_host_def host_connected_def inBackoff_def NewPeerManager_def)
  have cap: "maxPeers ?pm = 80" by (simp add: NewPeerManager_def)
  note dial = dial_outcome [where id_str = ?ids and ai = ?ai and pm = ?pm and ?h1.0 = idle_host and now = 0 and now' = 4
      and connect = "\<lambda>_. False", OF hyp]
  from dial [of idle_host] obtain pm'
    where "handleCandidate ?ids idle_host 0 idle_host (\<lambda>_. False) 4 ?pm ?ai = Inr (Dial, pm')"
      and skip: "\<forall>t h h' c t'. t < 4 + 30 * Second \<longrightarrow> shouldSkip h pm' t (ai_id ?ai) \<and>
        (\<exists>d' pm''. handleCandidate ?ids h t h' c t' pm' ?ai = Inr (d', pm'') \<and> d' \<noteq> Dial)"
    using free cap by auto
  moreover have "shouldSkip idle_host pm' 5 ''p''" using skip by (auto simp: Second_def)
  moreover from dial [of "idle_host\<lparr>net_peers := replicate 80 ''q''\<rparr>"] obtain d pm''
    where "handleCandidate ?ids idle_host 0 (idle_host\<lparr>net_peers := replicate 80 ''q''\<rparr>) (\<lambda>_. False) 4 ?pm ?ai = Inr (d, pm'')"
      and "d \<noteq> Dial"
    using cap by auto
  ultimately show ?thesis by blast
qed

end
