(* ===== verification/Dial_Loop.thy ===== *)
theory Dial_Loop
  imports Peer_Manager
begin

text \<open>
  \<^verbatim>\<open>PeerManager.Run\<close> as a state machine.  One thread runs the loop; each dispatched candidate is a
  goroutine that runs \<^verbatim>\<open>handleCandidate\<close> and then, in the deferred function, releases its
  semaphore slot and decrements the in-flight counter.  The environment moves the clock, adds
  peers to the finder, and opens and closes connections.

  \<open>run_step\<close> has one rule for each access to what goroutines share: the number of connected peers and the
  in-flight counter are read one after the other, the pull asks the host and the back-off map about each
  peer in turn while it holds the finder's lock, and the three checks of a candidate are three
  steps.  Only what no other goroutine can tell apart is one step: taking a slot, counting and
  starting a goroutine, and a check with the counter for Prometheus that it increments.
\<close>

section \<open>State\<close>

text \<open>
  Where the loop stands.  \<open>TopLoad n\<close> and \<open>DispatchLoad n ai ais\<close> have read that \<open>n\<close> peers are connected
  and not yet the counter.  \<open>Scan order todo ans asked\<close> is inside \<^verbatim>\<open>GetPeers\<close>, with the peers still to be asked
  about, the answers so far, and whether the next one was found unconnected.
\<close>

datatype run_pc =
    LoopTop
  | TopLoad nat
  | WaitBusy
  | Pull
  | Scan "peer_id list" "peer_id list" "peer_id \<Rightarrow> bool" bool
  | WaitEmpty
  | Dispatch "AddrInfo list"
  | DispatchLoad nat AddrInfo "AddrInfo list"
  | AcquireSem AddrInfo "AddrInfo list"
  | Returned

text \<open>
  A goroutine before each of its three checks, during \<^verbatim>\<open>Connect\<close> without and with a connection
  open, and before its two deferred statements.
\<close>

datatype task =
    TStart AddrInfo
  | TBackoff AddrInfo
  | TCap AddrInfo
  | TDial AddrInfo
  | TOpen AddrInfo
  | TDone
  | TReleased

record run_state =
  rs_pc :: run_pc
  rs_sem :: nat
  rs_inFlight :: int
  rs_tasks :: "task multiset"
  rs_pm :: PeerManager
  rs_pf :: PeerFinder
  rs_peers :: "peer_id list"
  rs_now :: time
  rs_inbound :: nat

definition view :: "run_state \<Rightarrow> host_net" where
  "view st = \<lparr>net_connectedness = (\<lambda>p. if p \<in> set (rs_peers st) then Connected else NotConnected),
              net_peers = rs_peers st, net_conns = (\<lambda>_. [])\<rparr>"

lemma view_simps [simp]:
  "net_peers (view st) = rs_peers st"
  "host_connected (view st) p \<longleftrightarrow> p \<in> set (rs_peers st)"
  by (simp_all add: view_def host_connected_def)

definition run_init :: "PeerManager \<Rightarrow> PeerFinder \<Rightarrow> time \<Rightarrow> run_state" where
  "run_init pm pf now =
     \<lparr>rs_pc = LoopTop, rs_sem = 0, rs_inFlight = 0, rs_tasks = {#}, rs_pm = pm, rs_pf = pf,
      rs_peers = [], rs_now = now, rs_inbound = 0\<rparr>"

section \<open>Steps\<close>

text \<open>The orders in which Go may range over the finder's map of an instance: every key once.\<close>

definition range_order :: "PeerFinder \<Rightarrow> string \<Rightarrow> peer_id list \<Rightarrow> bool" where
  "range_order pf inst order \<longleftrightarrow>
     (case peers pf inst of None \<Rightarrow> order = [] | Some m \<Rightarrow> distinct order \<and> set order = dom m)"

text \<open>The loop holds the finder's lock.\<close>

definition scanning :: "run_state \<Rightarrow> bool" where
  "scanning st = (case rs_pc st of Scan _ _ _ _ \<Rightarrow> True | _ \<Rightarrow> False)"

inductive run_step :: "(peer_id \<Rightarrow> string) \<Rightarrow> run_state \<Rightarrow> run_state \<Rightarrow> bool" for id_str where
  \<comment> \<open>the loop: is there room?\<close>
  top_peers: "rs_pc st = LoopTop \<Longrightarrow> run_step id_str st (st\<lparr>rs_pc := TopLoad (length (rs_peers st))\<rparr>)"
| top_busy: "rs_pc st = TopLoad n \<Longrightarrow> tooManyInFlight (rs_pm st) n (rs_inFlight st) \<Longrightarrow>
     run_step id_str st (st\<lparr>rs_pc := WaitBusy\<rparr>)"
| top_pull: "rs_pc st = TopLoad n \<Longrightarrow> \<not> tooManyInFlight (rs_pm st) n (rs_inFlight st) \<Longrightarrow>
     run_step id_str st (st\<lparr>rs_pc := Pull\<rparr>)"
| busy_timeout: "rs_pc st = WaitBusy \<Longrightarrow> run_step id_str st (st\<lparr>rs_pc := LoopTop\<rparr>)"
| busy_done: "rs_pc st = WaitBusy \<Longrightarrow> run_step id_str st (st\<lparr>rs_pc := Returned\<rparr>)"
  \<comment> \<open>the pull, under the finder's lock; \<open>shouldSkip\<close> asks the host, then the back-off map\<close>
| pull_lock: "rs_pc st = Pull \<Longrightarrow> range_order (rs_pf st) (instanceName (rs_pm st)) order \<Longrightarrow>
     run_step id_str st (st\<lparr>rs_pc := Scan order order (\<lambda>_. False) False\<rparr>)"
| pull_connected: "rs_pc st = Scan order (p # todo) ans False \<Longrightarrow> host_connected (view st) p \<Longrightarrow>
     run_step id_str st (st\<lparr>rs_pc := Scan order todo (ans(p := True)) False\<rparr>)"
| pull_unconnected: "rs_pc st = Scan order (p # todo) ans False \<Longrightarrow> \<not> host_connected (view st) p \<Longrightarrow>
     run_step id_str st (st\<lparr>rs_pc := Scan order (p # todo) ans True\<rparr>)"
| pull_backoff: "rs_pc st = Scan order (p # todo) ans True \<Longrightarrow>
     run_step id_str st (st\<lparr>rs_pc := Scan order todo (ans(p := inBackoff (rs_pm st) (rs_now st) p)) False\<rparr>)"
| pull_some: "rs_pc st = Scan order [] ans False \<Longrightarrow>
     GetPeers (rs_pf st) (instanceName (rs_pm st)) pullBatch (Some ans) order rnd = Inr ais \<Longrightarrow>
     ais \<noteq> [] \<Longrightarrow> run_step id_str st (st\<lparr>rs_pc := Dispatch ais\<rparr>)"
| pull_none: "rs_pc st = Scan order [] ans False \<Longrightarrow>
     GetPeers (rs_pf st) (instanceName (rs_pm st)) pullBatch (Some ans) order rnd = Inr [] \<Longrightarrow>
     run_step id_str st (st\<lparr>rs_pc := WaitEmpty\<rparr>)"
| empty_timeout: "rs_pc st = WaitEmpty \<Longrightarrow> run_step id_str st (st\<lparr>rs_pc := LoopTop\<rparr>)"
| empty_done: "rs_pc st = WaitEmpty \<Longrightarrow> run_step id_str st (st\<lparr>rs_pc := Returned\<rparr>)"
  \<comment> \<open>the batch\<close>
| dispatch_end: "rs_pc st = Dispatch [] \<Longrightarrow> run_step id_str st (st\<lparr>rs_pc := LoopTop\<rparr>)"
| dispatch_peers: "rs_pc st = Dispatch (ai # ais) \<Longrightarrow>
     run_step id_str st (st\<lparr>rs_pc := DispatchLoad (length (rs_peers st)) ai ais\<rparr>)"
| dispatch_break: "rs_pc st = DispatchLoad n ai ais \<Longrightarrow> tooManyInFlight (rs_pm st) n (rs_inFlight st) \<Longrightarrow>
     run_step id_str st (st\<lparr>rs_pc := LoopTop\<rparr>)"
| dispatch_next: "rs_pc st = DispatchLoad n ai ais \<Longrightarrow> \<not> tooManyInFlight (rs_pm st) n (rs_inFlight st) \<Longrightarrow>
     run_step id_str st (st\<lparr>rs_pc := AcquireSem ai ais\<rparr>)"
| acquire: "rs_pc st = AcquireSem ai ais \<Longrightarrow> rs_sem st < maxConcurrentDials \<Longrightarrow>
     run_step id_str st (st\<lparr>rs_pc := Dispatch ais, rs_sem := rs_sem st + 1,
       rs_inFlight := rs_inFlight st + 1, rs_tasks := add_mset (TStart ai) (rs_tasks st)\<rparr>)"
| acquire_done: "rs_pc st = AcquireSem ai ais \<Longrightarrow> run_step id_str st (st\<lparr>rs_pc := Returned\<rparr>)"
  \<comment> \<open>the goroutine of a candidate: the three checks\<close>
| task_connected: "TStart ai \<in># rs_tasks st \<Longrightarrow> host_connected (view st) (ai_id ai) \<Longrightarrow>
     run_step id_str st (st\<lparr>rs_tasks := add_mset TDone (rs_tasks st - {#TStart ai#})\<rparr>)"
| task_unconnected: "TStart ai \<in># rs_tasks st \<Longrightarrow> \<not> host_connected (view st) (ai_id ai) \<Longrightarrow>
     run_step id_str st (st\<lparr>rs_tasks := add_mset (TBackoff ai) (rs_tasks st - {#TStart ai#})\<rparr>)"
| task_held: "TBackoff ai \<in># rs_tasks st \<Longrightarrow> inBackoff (rs_pm st) (rs_now st) (ai_id ai) \<Longrightarrow>
     run_step id_str st (st\<lparr>rs_tasks := add_mset TDone (rs_tasks st - {#TBackoff ai#}),
       rs_pm := (rs_pm st)\<lparr>DialBackoffs := DialBackoffs (rs_pm st) + 1\<rparr>\<rparr>)"
| task_free: "TBackoff ai \<in># rs_tasks st \<Longrightarrow> \<not> inBackoff (rs_pm st) (rs_now st) (ai_id ai) \<Longrightarrow>
     run_step id_str st (st\<lparr>rs_tasks := add_mset (TCap ai) (rs_tasks st - {#TBackoff ai#})\<rparr>)"
| task_at_cap: "TCap ai \<in># rs_tasks st \<Longrightarrow> atCap (view st) (rs_pm st) \<Longrightarrow>
     run_step id_str st (st\<lparr>rs_tasks := add_mset TDone (rs_tasks st - {#TCap ai#})\<rparr>)"
| task_dial: "TCap ai \<in># rs_tasks st \<Longrightarrow> \<not> atCap (view st) (rs_pm st) \<Longrightarrow>
     run_step id_str st (st\<lparr>rs_tasks := add_mset (TDial ai) (rs_tasks st - {#TCap ai#}),
       rs_pm := (rs_pm st)\<lparr>DialAttempts := DialAttempts (rs_pm st) + 1\<rparr>\<rparr>)"
  \<comment> \<open>\<open>Connect\<close> opens a connection or not; it can fail even with one open; then the bookkeeping\<close>
| task_open: "TDial ai \<in># rs_tasks st \<Longrightarrow>
     run_step id_str st (st\<lparr>rs_tasks := add_mset (TOpen ai) (rs_tasks st - {#TDial ai#}),
       rs_peers := List.insert (ai_id ai) (rs_peers st)\<rparr>)"
| task_fail: "t \<in># rs_tasks st \<Longrightarrow> t = TDial ai \<or> t = TOpen ai \<Longrightarrow>
     cand_finish id_str False (rs_now st) (rs_pm st) (ai_id ai) = Inr pm' \<Longrightarrow>
     run_step id_str st (st\<lparr>rs_tasks := add_mset TDone (rs_tasks st - {#t#}), rs_pm := pm'\<rparr>)"
| task_ok: "TOpen ai \<in># rs_tasks st \<Longrightarrow>
     cand_finish id_str True (rs_now st) (rs_pm st) (ai_id ai) = Inr pm' \<Longrightarrow>
     run_step id_str st (st\<lparr>rs_tasks := add_mset TDone (rs_tasks st - {#TOpen ai#}), rs_pm := pm'\<rparr>)"
  \<comment> \<open>the deferred function\<close>
| task_release: "TDone \<in># rs_tasks st \<Longrightarrow>
     run_step id_str st (st\<lparr>rs_tasks := add_mset TReleased (rs_tasks st - {#TDone#}), rs_sem := rs_sem st - 1\<rparr>)"
| task_end: "TReleased \<in># rs_tasks st \<Longrightarrow>
     run_step id_str st (st\<lparr>rs_tasks := rs_tasks st - {#TReleased#}, rs_inFlight := rs_inFlight st - 1\<rparr>)"
  \<comment> \<open>the environment\<close>
| clock: "rs_now st \<le> t \<Longrightarrow> run_step id_str st (st\<lparr>rs_now := t\<rparr>)"
| discovered: "\<not> scanning st \<Longrightarrow> run_step id_str st (st\<lparr>rs_pf := pf'\<rparr>)"
| inbound: "run_step id_str st (st\<lparr>rs_peers := List.insert p (rs_peers st), rs_inbound := rs_inbound st + 1\<rparr>)"
| disconnect: "run_step id_str st (st\<lparr>rs_peers := remove1 p (rs_peers st)\<rparr>)"

inductive run_reach :: "(peer_id \<Rightarrow> string) \<Rightarrow> run_state \<Rightarrow> run_state \<Rightarrow> bool" for id_str st0 where
  start: "run_reach id_str st0 st0"
| step: "run_reach id_str st0 st \<Longrightarrow> run_step id_str st st' \<Longrightarrow> run_reach id_str st0 st'"

section \<open>Invariant\<close>

definition holds_slot :: "task \<Rightarrow> bool" where
  "holds_slot t \<longleftrightarrow> t \<noteq> TReleased"

definition may_connect :: "task \<Rightarrow> bool" where
  "may_connect t \<longleftrightarrow> (\<exists>ai. t \<in> {TStart ai, TBackoff ai, TCap ai, TDial ai})"

lemma task_kinds [simp]:
  "holds_slot (TStart ai)" "holds_slot (TBackoff ai)" "holds_slot (TCap ai)" "holds_slot (TDial ai)"
  "holds_slot (TOpen ai)" "holds_slot TDone" "\<not> holds_slot TReleased"
  "may_connect (TStart ai)" "may_connect (TBackoff ai)" "may_connect (TCap ai)" "may_connect (TDial ai)"
  "\<not> may_connect (TOpen ai)" "\<not> may_connect TDone" "\<not> may_connect TReleased"
  by (simp_all add: holds_slot_def may_connect_def)

abbreviation slots :: "run_state \<Rightarrow> nat" where
  "slots st \<equiv> size (filter_mset holds_slot (rs_tasks st))"

abbreviation dialling :: "run_state \<Rightarrow> nat" where
  "dialling st \<equiv> size (filter_mset may_connect (rs_tasks st))"

text \<open>Peers connected, and candidates that may still become connected.\<close>

definition committed :: "run_state \<Rightarrow> int" where
  "committed st = int (length (rs_peers st)) + int (dialling st)"

text \<open>How many goroutines a manager can have in flight at once, as far as the connected peers go.\<close>

definition dial_room :: "int \<Rightarrow> int" where
  "dial_room cap = min 500 (cap + 20)"

text \<open>The candidate about to be started, if there is one, and the number of peers read but not yet compared.\<close>

definition reserved :: "run_state \<Rightarrow> nat" where
  "reserved st = (case rs_pc st of AcquireSem _ _ \<Rightarrow> 1 | _ \<Rightarrow> 0)"

definition stale_ok :: "int \<Rightarrow> run_state \<Rightarrow> bool" where
  "stale_ok cap st = (case rs_pc st of
     DispatchLoad n _ _ \<Rightarrow> committed st \<le> int n + dial_room cap + int (rs_inbound st) \<and> int n \<le> 2 ^ 62 + 1000
   | _ \<Rightarrow> True)"

text \<open>
  The semaphore counts the tasks that hold a slot, the counter counts all tasks.  The number of peers
  compared with the cap may be old: each dial that was in flight when it was read may have connected and ended
  before the counter is read.
\<close>

definition run_inv :: "int \<Rightarrow> run_state \<Rightarrow> bool" where
  "run_inv cap st \<longleftrightarrow>
     maxPeers (rs_pm st) = cap \<and>
     rs_sem st = slots st \<and> rs_sem st \<le> maxConcurrentDials \<and>
     rs_inFlight st = int (size (rs_tasks st)) \<and>
     rs_inFlight st + int (reserved st) \<le> cap + 20 \<and>
     committed st + int (reserved st) \<le> cap + 20 + dial_room cap + int (rs_inbound st) \<and>
     stale_ok cap st"

lemma cand_finish_maxPeers: "cand_finish id_str ok now pm p = Inr pm' \<Longrightarrow> maxPeers pm' = maxPeers pm"
  by (auto simp: cand_finish_def recordFailure_def clearBackoff_def Let_def res_bind_Inr_iff split: if_splits)

lemma dialling_le_slots: "dialling st \<le> slots st"
proof -
  have "size (filter_mset may_connect T) \<le> size (filter_mset holds_slot T)" for T :: "task multiset"
    by (induction T) (auto simp: may_connect_def holds_slot_def)
  then show ?thesis .
qed

lemma slots_le_tasks: "slots st \<le> size (rs_tasks st)"
  by (simp add: size_filter_mset_lesseq)

lemma dialling_room:
  assumes "run_inv cap st"
  shows "int (dialling st) \<le> dial_room cap"
proof -
  have "int (slots st) \<le> 500" "int (size (rs_tasks st)) \<le> cap + 20"
    using assms by (simp_all add: run_inv_def maxConcurrentDials_def)
  moreover have "int (dialling st) \<le> int (slots st)" "int (slots st) \<le> int (size (rs_tasks st))"
    using dialling_le_slots [of st] slots_le_tasks [of st] by (simp_all only: of_nat_le_iff)
  ultimately show ?thesis unfolding dial_room_def by linarith
qed

lemma not_busy_room:
  assumes "\<not> tooManyInFlight pm n infl" and "0 < maxPeers pm" and "maxPeers pm < 2 ^ 61"
    and "int n \<le> 2 ^ 62 + 1000" and "0 \<le> infl" and "infl \<le> maxPeers pm + 20"
  shows "int n + infl < maxPeers pm + 20"
proof -
  have "in_int64 (int n + infl)" and "in_int64 (maxPeers pm + 20)"
    using assms(2-) by (auto simp: in_int64_def)
  with assms show ?thesis by (simp add: tooManyInFlight_def)
qed

lemma length_List_insert_le: "length (List.insert x xs) \<le> Suc (length xs)"
  by (simp add: List.insert_def)

lemma length_remove1_le: "length (remove1 x xs) \<le> length xs"
  by (simp add: length_remove1)

lemmas run_inv_simps = run_inv_def reserved_def stale_ok_def committed_def

text \<open>A goroutine's step keeps or lowers \<open>committed\<close>, and nothing but the loop changes where the loop stands.\<close>

lemma run_inv_task:
  assumes inv: "run_inv cap st" and pc: "rs_pc st' = rs_pc st" and inb: "rs_inbound st \<le> rs_inbound st'"
    and com: "committed st' + int (rs_inbound st) \<le> committed st + int (rs_inbound st')" and mp: "maxPeers (rs_pm st') = cap"
    and sem: "rs_sem st' = slots st'" "rs_sem st' \<le> rs_sem st"
    and infl: "rs_inFlight st' = int (size (rs_tasks st'))" "rs_inFlight st' \<le> rs_inFlight st"
  shows "run_inv cap st'"
proof -
  have "stale_ok cap st'"
    using inv pc com by (auto simp: run_inv_def stale_ok_def split: run_pc.splits)
  with assms show ?thesis by (auto simp: run_inv_def reserved_def)
qed

lemma run_step_inv:
  assumes "run_step id_str st st'" and inv: "run_inv cap st"
    and cap: "0 < cap" "cap < 2 ^ 61" "rs_inbound st < 2 ^ 61"
  shows "run_inv cap st'"
  using assms(1)
proof cases
  case (dispatch_peers ai ais)
  have "int (rs_inbound st) < 2 ^ 61" using cap(3) by (metis of_nat_less_iff of_nat_numeral of_nat_power)
  moreover have "committed st \<le> cap + 20 + dial_room cap + int (rs_inbound st)" "dial_room cap \<le> 500"
    using inv by (simp_all add: run_inv_def dial_room_def)
  moreover have "(2 :: int) ^ 61 + 2 ^ 61 = 2 ^ 62" by simp
  ultimately have "int (length (rs_peers st)) \<le> 2 ^ 62 + 1000"
    using cap(2) of_nat_0_le_iff [of "dialling st"] unfolding committed_def by linarith
  with dispatch_peers inv dialling_room [OF inv] show ?thesis by (simp add: run_inv_simps)
next
  case (dispatch_next n ai ais)
  have n: "int n \<le> 2 ^ 62 + 1000" "committed st \<le> int n + dial_room cap + int (rs_inbound st)"
    using inv dispatch_next(2) by (simp_all add: run_inv_def stale_ok_def)
  have "int n + rs_inFlight st < cap + 20"
    using not_busy_room [OF dispatch_next(3)] n(1) inv cap by (simp add: run_inv_def reserved_def)
  moreover have "0 \<le> rs_inFlight st" using inv by (simp add: run_inv_def)
  ultimately show ?thesis using dispatch_next(1,2) inv n(2) by (simp add: run_inv_simps)
next
  case (acquire ai ais)
  with inv show ?thesis by (auto simp: run_inv_simps)
next
  case (task_fail t ai pm')
  then obtain T where T: "rs_tasks st = add_mset t T" by (blast dest: multi_member_split)
  show ?thesis by (rule run_inv_task [OF inv])
    (use task_fail T inv in \<open>auto simp: committed_def run_inv_def dest: cand_finish_maxPeers\<close>)
next
  case (task_ok ai pm')
  then obtain T where T: "rs_tasks st = add_mset (TOpen ai) T" by (blast dest: multi_member_split)
  show ?thesis by (rule run_inv_task [OF inv])
    (use task_ok T inv in \<open>auto simp: committed_def run_inv_def dest: cand_finish_maxPeers\<close>)
next
  case (task_open ai)
  then obtain T where T: "rs_tasks st = add_mset (TDial ai) T" by (blast dest: multi_member_split)
  show ?thesis by (rule run_inv_task [OF inv])
    (use task_open T inv length_List_insert_le [of "ai_id ai" "rs_peers st"] in \<open>auto simp: committed_def run_inv_def\<close>)
next
  case (inbound p)
  show ?thesis by (rule run_inv_task [OF inv])
    (use inbound inv length_List_insert_le [of p "rs_peers st"] in \<open>auto simp: committed_def run_inv_def\<close>)
next
  case (disconnect p)
  show ?thesis by (rule run_inv_task [OF inv])
    (use disconnect inv length_remove1_le [of p "rs_peers st"] in \<open>auto simp: committed_def run_inv_def\<close>)
next
  case (task_connected ai)
  then obtain T where "rs_tasks st = add_mset (TStart ai) T" by (blast dest: multi_member_split)
  with task_connected inv show ?thesis by (intro run_inv_task [OF inv]) (auto simp: committed_def run_inv_def)
next
  case (task_unconnected ai)
  then obtain T where "rs_tasks st = add_mset (TStart ai) T" by (blast dest: multi_member_split)
  with task_unconnected inv show ?thesis by (intro run_inv_task [OF inv]) (auto simp: committed_def run_inv_def)
next
  case (task_held ai)
  then obtain T where "rs_tasks st = add_mset (TBackoff ai) T" by (blast dest: multi_member_split)
  with task_held inv show ?thesis by (intro run_inv_task [OF inv]) (auto simp: committed_def run_inv_def)
next
  case (task_free ai)
  then obtain T where "rs_tasks st = add_mset (TBackoff ai) T" by (blast dest: multi_member_split)
  with task_free inv show ?thesis by (intro run_inv_task [OF inv]) (auto simp: committed_def run_inv_def)
next
  case (task_at_cap ai)
  then obtain T where "rs_tasks st = add_mset (TCap ai) T" by (blast dest: multi_member_split)
  with task_at_cap inv show ?thesis by (intro run_inv_task [OF inv]) (auto simp: committed_def run_inv_def)
next
  case (task_dial ai)
  then obtain T where "rs_tasks st = add_mset (TCap ai) T" by (blast dest: multi_member_split)
  with task_dial inv show ?thesis by (intro run_inv_task [OF inv]) (auto simp: committed_def run_inv_def)
next
  case task_release
  then obtain T where "rs_tasks st = add_mset TDone T" by (blast dest: multi_member_split)
  with task_release inv show ?thesis by (intro run_inv_task [OF inv]) (auto simp: committed_def run_inv_def)
next
  case task_end
  then obtain T where "rs_tasks st = add_mset TReleased T" by (blast dest: multi_member_split)
  with task_end inv show ?thesis by (intro run_inv_task [OF inv]) (auto simp: committed_def run_inv_def)
qed (use inv in \<open>auto simp: run_inv_simps split: run_pc.splits\<close>)

lemma run_step_inbound_mono: "run_step id_str st st' \<Longrightarrow> rs_inbound st \<le> rs_inbound st'"
  by (induction rule: run_step.induct) auto

lemma run_reach_inv:
  assumes "run_reach id_str (run_init pm pf now) st" and "maxPeers pm = cap"
    and "0 < cap" and "cap < 2 ^ 61" and "rs_inbound st < 2 ^ 61"
  shows "run_inv cap st"
  using assms(1,5)
proof (induction rule: run_reach.induct)
  case start
  with assms(2,3) show ?case by (simp add: run_inv_simps run_init_def dial_room_def)
next
  case (step st st')
  then have "rs_inbound st < 2 ^ 61" using run_step_inbound_mono by (meson order_le_less_trans)
  with step assms(3,4) show ?case by (blast intro: run_step_inv)
qed

end
