(* ===== verification/Dial_Runs.thy ===== *)
theory Dial_Runs
  imports Dial_Loop
begin

text \<open>
  Runs of \<^verbatim>\<open>PeerManager.Run\<close>: what holds in all of them (the limits on dialling), and three that show what the
  interleavings allow: a batch of goroutines that dial, many dials of one peer, and more connections than
  the soft cap.
\<close>

section \<open>Steps of a run\<close>

text \<open>A state of a run: where the loop stands, the goroutines, the peers connected and the dials counted.\<close>

definition run_at ::
  "int \<Rightarrow> string \<Rightarrow> PeerFinder \<Rightarrow> time \<Rightarrow> run_pc \<Rightarrow> task multiset \<Rightarrow> peer_id list \<Rightarrow> nat \<Rightarrow> run_state" where
  "run_at cap nm pf now pc T ps k =
     (run_init (NewPeerManager cap nm) pf now)\<lparr>rs_pc := pc, rs_sem := size (filter_mset holds_slot T),
        rs_inFlight := int (size T), rs_tasks := T, rs_peers := ps, rs_pm := (NewPeerManager cap nm)\<lparr>DialAttempts := k\<rparr>\<rparr>"

lemma run_at_simps [simp]:
  "rs_pc (run_at cap nm pf now pc T ps k) = pc" "rs_sem (run_at cap nm pf now pc T ps k) = size (filter_mset holds_slot T)"
  "rs_inFlight (run_at cap nm pf now pc T ps k) = int (size T)" "rs_tasks (run_at cap nm pf now pc T ps k) = T"
  "rs_pf (run_at cap nm pf now pc T ps k) = pf" "rs_peers (run_at cap nm pf now pc T ps k) = ps"
  "rs_now (run_at cap nm pf now pc T ps k) = now" "rs_inbound (run_at cap nm pf now pc T ps k) = 0"
  "rs_pm (run_at cap nm pf now pc T ps k) = (NewPeerManager cap nm)\<lparr>DialAttempts := k\<rparr>"
  by (simp_all add: run_at_def run_init_def)

lemma run_at_init: "run_at cap nm pf now LoopTop {#} [] 0 = run_init (NewPeerManager cap nm) pf now"
  by (simp add: run_at_def run_init_def NewPeerManager_def)

lemmas run_at_eq = run_at_def run_init_def

lemma new_manager_simps [simp]:
  "maxPeers (NewPeerManager cap nm) = cap" "instanceName (NewPeerManager cap nm) = nm" "backoff (NewPeerManager cap nm) = Map.empty"
  by (simp_all add: NewPeerManager_def)

lemma reach_step_eq:
  "run_reach id_str st0 st \<Longrightarrow> run_step id_str st st' \<Longrightarrow> st'' = st' \<Longrightarrow> run_reach id_str st0 st''"
  by (blast intro: run_reach.step)

lemma room_not_busy:
  assumes "int n + infl < cap + 20" and "0 \<le> infl" and "0 < cap" and "cap < 2 ^ 61"
  shows "\<not> tooManyInFlight ((NewPeerManager cap nm)\<lparr>DialAttempts := k\<rparr>) n infl"
proof -
  have "in_int64 (int n + infl)" "in_int64 (cap + 20)" using assms by (auto simp: in_int64_def)
  with assms(1) show ?thesis by (simp add: tooManyInFlight_def)
qed

lemma not_held [simp]: "inBackoff ((NewPeerManager cap nm)\<lparr>DialAttempts := k\<rparr>) t p \<longleftrightarrow> False"
  by (simp add: inBackoff_def)

text \<open>The pull: nobody is connected, nobody is held back, so everybody the finder knows is offered.\<close>

lemma at_scan:
  assumes "run_reach id_str st0 (run_at cap nm pf now (Scan order todo (\<lambda>_. False) False) T [] k)"
  shows "run_reach id_str st0 (run_at cap nm pf now (Scan order [] (\<lambda>_. False) False) T [] k)"
  using assms
proof (induction todo)
  case (Cons p todo)
  have "run_reach id_str st0 (run_at cap nm pf now (Scan order (p # todo) (\<lambda>_. False) True) T [] k)"
    by (rule reach_step_eq [OF Cons.prems run_step.pull_unconnected]) (simp_all add: run_at_eq)
  then have "run_reach id_str st0 (run_at cap nm pf now (Scan order todo ((\<lambda>_. False)(p := False)) False) T [] k)"
    by (rule reach_step_eq [OF _ run_step.pull_backoff]) (simp_all add: run_at_eq)
  moreover have upd: "(\<lambda>_. False)(p := False) = (\<lambda>_. False)" by auto
  ultimately have "run_reach id_str st0 (run_at cap nm pf now (Scan order todo (\<lambda>_. False) False) T [] k)" by (simp only: upd)
  then show ?case by (rule Cons.IH)
qed

lemma at_pull:
  assumes "run_reach id_str st0 (run_at cap nm pf now LoopTop T [] k)"
    and "int (size T) < cap + 20" and "0 < cap" and "cap < 2 ^ 61"
    and "range_order pf nm order" and "GetPeers pf nm pullBatch (Some (\<lambda>_. False)) order rnd = Inr ais" and "ais \<noteq> []"
  shows "run_reach id_str st0 (run_at cap nm pf now (Dispatch ais) T [] k)"
proof -
  have "run_reach id_str st0 (run_at cap nm pf now (TopLoad 0) T [] k)"
    by (rule reach_step_eq [OF assms(1) run_step.top_peers]) (simp_all add: run_at_eq)
  then have "run_reach id_str st0 (run_at cap nm pf now Pull T [] k)"
    by (rule reach_step_eq [OF _ run_step.top_pull]) (use room_not_busy [of 0 "int (size T)" cap] assms(2-4) in \<open>simp_all add: run_at_eq\<close>)
  then have "run_reach id_str st0 (run_at cap nm pf now (Scan order order (\<lambda>_. False) False) T [] k)"
    by (rule reach_step_eq [OF _ run_step.pull_lock]) (use assms(5) in \<open>simp_all add: run_at_eq\<close>)
  then have "run_reach id_str st0 (run_at cap nm pf now (Scan order [] (\<lambda>_. False) False) T [] k)" by (rule at_scan)
  then show ?thesis
    by (rule reach_step_eq [OF _ run_step.pull_some]) (use assms(6,7) in \<open>simp_all add: run_at_eq\<close>)
qed

lemma at_reserve:
  assumes "run_reach id_str st0 (run_at cap nm pf now (DispatchLoad n ai ais) T ps k)"
    and "int n + int (size T) < cap + 20" and "0 < cap" and "cap < 2 ^ 61"
  shows "run_reach id_str st0 (run_at cap nm pf now (AcquireSem ai ais) T ps k)"
  by (rule reach_step_eq [OF assms(1) run_step.dispatch_next])
    (use room_not_busy [of n "int (size T)" cap] assms(2-4) in \<open>simp_all add: run_at_eq\<close>)

lemma at_acquire:
  assumes "run_reach id_str st0 (run_at cap nm pf now (AcquireSem ai ais) T ps k)" and "size T < 500"
  shows "run_reach id_str st0 (run_at cap nm pf now (Dispatch ais) (add_mset (TStart ai) T) ps k)"
proof -
  have "size (filter_mset holds_slot T) < maxConcurrentDials"
    using size_filter_mset_lesseq assms(2) unfolding maxConcurrentDials_def by (rule order_le_less_trans)
  then show ?thesis
    by (intro reach_step_eq [OF assms(1) run_step.acquire]) (simp_all add: run_at_eq)
qed

lemma at_load:
  assumes "run_reach id_str st0 (run_at cap nm pf now (Dispatch (ai # ais)) T ps k)"
  shows "run_reach id_str st0 (run_at cap nm pf now (DispatchLoad (length ps) ai ais) T ps k)"
  by (rule reach_step_eq [OF assms run_step.dispatch_peers]) (simp_all add: run_at_eq)

lemma at_batch:
  assumes "run_reach id_str st0 (run_at cap nm pf now (Dispatch (xs @ ys)) T [] k)"
    and "int (size T) + int (length xs) \<le> cap + 20" and "0 < cap" and "cap < 2 ^ 61" and "size T + length xs \<le> 500"
  shows "run_reach id_str st0 (run_at cap nm pf now (Dispatch ys) (mset (map TStart xs) + T) [] k)"
  using assms(1,2,5)
proof (induction xs arbitrary: T)
  case (Cons x xs)
  from at_load [of id_str st0 cap nm pf now x "xs @ ys" T "[]" k] Cons.prems(1)
  have "run_reach id_str st0 (run_at cap nm pf now (DispatchLoad 0 x (xs @ ys)) T [] k)" by simp
  from at_acquire [OF at_reserve [OF this]] Cons.prems(2,3) assms(3,4)
  have "run_reach id_str st0 (run_at cap nm pf now (Dispatch (xs @ ys)) (add_mset (TStart x) T) [] k)" by simp
  from Cons.IH [OF this] Cons.prems(2,3) show ?case by simp
qed simp

text \<open>A candidate passes its three checks.\<close>

lemma at_dial:
  assumes "run_reach id_str st0 (run_at cap nm pf now pc (add_mset (TStart ai) T) ps k)"
    and "ai_id ai \<notin> set ps" and "cap \<le> 0 \<or> int (length ps) < cap"
  shows "run_reach id_str st0 (run_at cap nm pf now pc (add_mset (TDial ai) T) ps (Suc k))"
proof -
  have "run_reach id_str st0 (run_at cap nm pf now pc (add_mset (TBackoff ai) T) ps k)"
    by (rule reach_step_eq [OF assms(1) run_step.task_unconnected [where ai = ai]]) (use assms(2) in \<open>simp_all add: run_at_eq\<close>)
  then have "run_reach id_str st0 (run_at cap nm pf now pc (add_mset (TCap ai) T) ps k)"
    by (rule reach_step_eq [OF _ run_step.task_free [where ai = ai]]) (simp_all add: run_at_eq)
  then show ?thesis
    by (rule reach_step_eq [OF _ run_step.task_dial [where ai = ai]])
      (use assms(3) in \<open>auto simp: atCap_def run_at_eq\<close>)
qed

lemma at_dial_all:
  assumes "run_reach id_str st0 (run_at cap nm pf now pc (mset (map TStart xs) + T) [] k)" and "0 < cap"
  shows "run_reach id_str st0 (run_at cap nm pf now pc (mset (map TDial xs) + T) [] (length xs + k))"
  using assms(1)
proof (induction xs arbitrary: T k)
  case (Cons x xs)
  from at_dial [of id_str st0 cap nm pf now pc x "mset (map TStart xs) + T" "[]" k] Cons.prems assms(2)
  have "run_reach id_str st0 (run_at cap nm pf now pc (mset (map TStart xs) + add_mset (TDial x) T) [] (Suc k))" by simp
  from Cons.IH [OF this] show ?case by simp
qed simp

lemma at_open:
  assumes "run_reach id_str st0 (run_at cap nm pf now pc (add_mset (TDial ai) T) ps k)"
  shows "run_reach id_str st0 (run_at cap nm pf now pc (add_mset (TOpen ai) T) (List.insert (ai_id ai) ps) k)"
  by (rule reach_step_eq [OF assms run_step.task_open [where ai = ai]]) (simp_all add: run_at_eq)

lemma at_open_all:
  assumes "run_reach id_str st0 (run_at cap nm pf now pc (mset (map TDial xs) + T) ps k)"
    and "distinct (map ai_id xs)" and "set (map ai_id xs) \<inter> set ps = {}"
  shows "\<exists>T'. run_reach id_str st0 (run_at cap nm pf now pc T' (rev (map ai_id xs) @ ps) k)"
  using assms
proof (induction xs arbitrary: T ps)
  case (Cons x xs)
  from at_open [of id_str st0 cap nm pf now pc x "mset (map TDial xs) + T" ps k] Cons.prems
  have "run_reach id_str st0 (run_at cap nm pf now pc (mset (map TDial xs) + add_mset (TOpen x) T) (ai_id x # ps) k)"
    by simp
  from Cons.IH [OF this] Cons.prems show ?case by auto
qed auto

text \<open>A connected candidate finishes.\<close>

lemma at_finish:
  assumes "run_reach id_str st0 (run_at cap nm pf now pc (add_mset (TOpen ai) T) ps k)"
    and "16 \<le> length (id_str (ai_id ai))"
  shows "run_reach id_str st0 (run_at cap nm pf now pc T ps k)"
proof -
  have "cand_finish id_str True now ((NewPeerManager cap nm)\<lparr>DialAttempts := k\<rparr>) (ai_id ai) =
      Inr ((NewPeerManager cap nm)\<lparr>DialAttempts := k\<rparr>)"
    using assms(2) by (simp add: cand_finish_def clearBackoff_def str_slice_to_def NewPeerManager_def)
  then have "run_reach id_str st0 (run_at cap nm pf now pc (add_mset TDone T) ps k)"
    by (intro reach_step_eq [OF assms(1) run_step.task_ok [where ai = ai]]) (simp_all add: run_at_eq)
  then have "run_reach id_str st0 ((run_at cap nm pf now pc (add_mset TReleased T) ps k))"
    by (rule reach_step_eq [OF _ run_step.task_release]) (simp_all add: run_at_eq)
  then show ?thesis by (rule reach_step_eq [OF _ run_step.task_end]) (simp_all add: run_at_eq)
qed

text \<open>A finder that knows the given peers, all of one instance, and the pull of all of them in that order.\<close>

definition batch_finder :: "string \<Rightarrow> AddrInfo list \<Rightarrow> PeerFinder" where
  "batch_finder nm ais = \<lparr>hosts = [], peers = [nm \<mapsto> map_of (map (\<lambda>ai. (ai_id ai, ai)) ais)]\<rparr>"

lemma shuffle_from_id: "i < length xs \<Longrightarrow> shuffle_from (\<lambda>i. i) i xs = xs"
proof (induction i)
  case (Suc i)
  then show ?case by (simp add: list_swap_def)
qed (cases xs; simp)

lemma batch_pull:
  assumes "distinct (map ai_id ais)" and "ais \<noteq> []" and "length ais \<le> 50"
  shows "range_order (batch_finder nm ais) nm (map ai_id ais)"
    and "GetPeers (batch_finder nm ais) nm pullBatch (Some (\<lambda>_. False)) (map ai_id ais) (\<lambda>i. i) = Inr ais"
proof -
  let ?m = "map_of (map (\<lambda>ai. (ai_id ai, ai)) ais)"
  have ids: "map fst (map (\<lambda>ai. (ai_id ai, ai)) ais) = map ai_id ais" by simp
  show "range_order (batch_finder nm ais) nm (map ai_id ais)"
    using assms(1) by (simp add: range_order_def batch_finder_def dom_map_of_conv_image_fst image_image)
  have "?m (map ai_id ais ! i) = Some (ais ! i)" if "i < length ais" for i
    using that assms(1) by (intro map_of_is_SomeI) (auto simp: comp_def intro!: image_eqI nth_mem)
  then have "map (\<lambda>i. case ?m (map ai_id ais ! i) of Some ai \<Rightarrow> ai | None \<Rightarrow> zero_AddrInfo) [0..<length ais] = ais"
    by (intro nth_equalityI) simp_all
  moreover have "go_shuffle (\<lambda>i. i) (map ai_id ais) = map ai_id ais"
    using assms(2) by (simp add: go_shuffle_def shuffle_from_id)
  ultimately show "GetPeers (batch_finder nm ais) nm pullBatch (Some (\<lambda>_. False)) (map ai_id ais) (\<lambda>i. i) = Inr ais"
    using assms(2,3)
    by (cases "length ais < 50") (simp_all add: GetPeers_def batch_finder_def skips_def pullBatch_def Let_def)
qed

lemma at_first_batch:
  assumes "distinct (map ai_id (xs @ ys))" and "xs \<noteq> []" and "length (xs @ ys) \<le> 50"
    and "int (length xs) \<le> cap + 20" and "0 < cap" and "cap < 2 ^ 61"
  shows "run_reach id_str (run_init (NewPeerManager cap nm) (batch_finder nm (xs @ ys)) now)
     (run_at cap nm (batch_finder nm (xs @ ys)) now (Dispatch ys) (mset (map TStart xs)) [] 0)"
proof -
  let ?i = "run_init (NewPeerManager cap nm) (batch_finder nm (xs @ ys)) now"
  have "run_reach id_str ?i (run_at cap nm (batch_finder nm (xs @ ys)) now LoopTop {#} [] 0)"
    by (simp only: run_at_init) (rule run_reach.start)
  from at_pull [OF this _ _ _ batch_pull [OF assms(1)]] assms
  have "run_reach id_str ?i (run_at cap nm (batch_finder nm (xs @ ys)) now (Dispatch (xs @ ys)) {#} [] 0)" by simp
  from at_batch [OF this] assms show ?thesis by simp
qed

section \<open>More connections than the soft cap\<close>

text \<open>
  C40: two readings can exceed the soft cap.  The loop reads the number of connected peers and then the number
  of goroutines in flight; a dial that connects and ends in between is counted in neither.  So a manager with a cap
  of 2 to 29 peers that has dialled maxPeers + 20 candidates can start another one, and when all of them
  connect it has, without any inbound connection, maxPeers + 21 peers.
\<close>

theorem soft_cap_overshoot:
  assumes "2 \<le> cap" and "cap \<le> 29"
    and "length ais = nat cap + 21" and "distinct (map ai_id ais)" and "\<forall>ai \<in> set ais. 16 \<le> length (id_str (ai_id ai))"
  shows "\<exists>st. run_reach id_str (run_init (NewPeerManager cap nm) (batch_finder nm ais) now) st \<and>
     rs_inbound st = 0 \<and> int (length (rs_peers st)) = cap + 21 \<and> distinct (rs_peers st)"
proof -
  obtain bs z where ais: "ais = bs @ [z]" using assms(3) by (cases ais rule: rev_cases) auto
  with assms(3) obtain b cs where bs: "bs = b # cs" by (cases bs) auto
  have len: "int (length bs) = cap + 20" "length ais \<le> 50" "bs \<noteq> []" using assms(1-3) ais bs by auto
  let ?pf = "batch_finder nm ais" and ?i = "run_init (NewPeerManager cap nm) (batch_finder nm ais) now"
  let ?T = "mset (map TDial cs)"
  have "run_reach id_str ?i (run_at cap nm ?pf now (Dispatch [z]) (mset (map TStart bs)) [] 0)"
    unfolding ais by (rule at_first_batch) (use assms len ais in simp_all)
  then have "run_reach id_str ?i (run_at cap nm ?pf now (Dispatch [z]) (mset (map TDial bs)) [] (length bs))"
    using at_dial_all [of id_str ?i cap nm ?pf now "Dispatch [z]" bs "{#}" 0] assms(1) by simp
  from at_load [OF this]
  have "run_reach id_str ?i (run_at cap nm ?pf now (DispatchLoad 0 z []) (add_mset (TDial b) ?T) [] (length bs))"
    by (simp add: bs)
  from at_finish [OF at_open [OF this]] assms(5)
  have "run_reach id_str ?i (run_at cap nm ?pf now (DispatchLoad 0 z []) ?T [ai_id b] (length bs))"
    by (simp add: ais bs)
  from at_acquire [OF at_reserve [OF this]] assms(1,2) len(1)
  have "run_reach id_str ?i (run_at cap nm ?pf now (Dispatch []) (add_mset (TStart z) ?T) [ai_id b] (length bs))"
    by (simp add: bs)
  from at_dial [OF this] assms(1,4)
  have "run_reach id_str ?i (run_at cap nm ?pf now (Dispatch []) (mset (map TDial (z # cs)) + {#}) [ai_id b] (Suc (length bs)))"
    by (auto simp: ais bs)
  moreover have "distinct (map ai_id (z # cs))" "set (map ai_id (z # cs)) \<inter> set [ai_id b] = {}"
    using assms(4) by (auto simp: ais bs)
  ultimately obtain T' where "run_reach id_str ?i
      (run_at cap nm ?pf now (Dispatch []) T' (rev (map ai_id (z # cs)) @ [ai_id b]) (Suc (length bs)))"
    using at_open_all by blast
  moreover have "distinct (rev (map ai_id (z # cs)) @ [ai_id b])" using assms(4) by (auto simp: ais bs)
  moreover have "int (length (rev (map ai_id (z # cs)) @ [ai_id b])) = cap + 21" using len(1) by (simp add: bs)
  ultimately show ?thesis by (metis run_at_simps(6,8))
qed

definition demo_peers :: "AddrInfo list" where
  "demo_peers = map (\<lambda>i. \<lparr>ai_id = ''p'' @ dec_nat i, ai_addrs = []\<rparr>) [0..<26]"

lemma demo_peers: "length demo_peers = 26" "distinct (map ai_id demo_peers)"
proof -
  show "length demo_peers = 26" by (simp add: demo_peers_def)
  have "inj dec_nat" by (rule inj_on_inverseI [where g = read_dec]) simp
  then show "distinct (map ai_id demo_peers)"
    by (simp add: demo_peers_def comp_def distinct_map inj_on_def)
qed

theorem soft_cap_overshoot_witness:
  "\<exists>st. run_reach (\<lambda>_. ''16Uiu2HAm1234567'') (run_init (NewPeerManager 5 ''a'') (batch_finder ''a'' demo_peers) 0) st \<and>
     rs_inbound st = 0 \<and> int (length (rs_peers st)) = 26 \<and> distinct (rs_peers st)"
  using soft_cap_overshoot [of 5 demo_peers "\<lambda>_. ''16Uiu2HAm1234567''" "''a''" 0] demo_peers by simp

section \<open>The limits\<close>

text \<open>
  C14: dialling respects its limits.  In every state a running manager with a positive peer cap can
  reach: at most 500 goroutines hold a dial slot; the counter is the number of goroutines, at most
  maxPeers + 20; and dialling never brings the host above maxPeers + 20 connected peers by more than the
  goroutines that can be in flight, which the loop may miss between its two readings (inbound
  connections, which the manager does not control, come on top).
\<close>

theorem dialling_respects_caps:
  assumes "run_reach id_str (run_init (NewPeerManager cap nm) pf now) st"
    and "0 < cap" and "cap < 2 ^ 61" and "rs_inbound st < 2 ^ 61"
  shows "slots st \<le> 500 \<and> rs_inFlight st = int (size (rs_tasks st)) \<and> rs_inFlight st \<le> cap + 20 \<and>
     int (length (rs_peers st)) \<le> cap + 20 + min 500 (cap + 20) + int (rs_inbound st)"
proof -
  have "run_inv cap st" by (rule run_reach_inv [OF assms(1) _ assms(2-4)]) simp
  then show ?thesis unfolding run_inv_def committed_def dial_room_def maxConcurrentDials_def by linarith
qed

text \<open>A manager with the cap 5 and as many goroutines dialling as it can have.\<close>

lemma demo_full:
  "run_reach id_str (run_init (NewPeerManager 5 ''a'') (batch_finder ''a'' demo_peers) 0)
     (run_at 5 ''a'' (batch_finder ''a'' demo_peers) 0 (Dispatch (drop 25 demo_peers)) (mset (map TDial (take 25 demo_peers))) [] 25)"
proof -
  have "demo_peers \<noteq> []" using demo_peers(1) by auto
  from at_first_batch [of "take 25 demo_peers" "drop 25 demo_peers" 5 id_str "''a''" 0] demo_peers this
  have "run_reach id_str (run_init (NewPeerManager 5 ''a'') (batch_finder ''a'' demo_peers) 0)
     (run_at 5 ''a'' (batch_finder ''a'' demo_peers) 0 (Dispatch (drop 25 demo_peers)) (mset (map TStart (take 25 demo_peers)) + {#}) [] 0)"
    by simp
  from at_dial_all [OF this] demo_peers(1) show ?thesis by simp
qed

theorem dialling_respects_caps_witness:
  "slots (run_at 5 ''a'' (batch_finder ''a'' demo_peers) 0 (Dispatch (drop 25 demo_peers)) (mset (map TDial (take 25 demo_peers))) [] 25) \<le> 500 \<and>
   rs_inFlight (run_at 5 ''a'' (batch_finder ''a'' demo_peers) 0 (Dispatch (drop 25 demo_peers)) (mset (map TDial (take 25 demo_peers))) [] 25) = 25"
  using dialling_respects_caps [OF demo_full] demo_peers(1) by simp

section \<open>Repeated dials of one peer\<close>

text \<open>
  A peer whose dial is still in flight is neither connected nor in back-off, so \<^verbatim>\<open>GetPeers\<close> offers it
  again and the loop, which does not wait after a non-empty batch, starts another goroutine
  for it: first \<open>n\<close> goroutines are started, then all of them dial, then all the dials fail.
\<close>

definition lone_finder :: "string \<Rightarrow> AddrInfo \<Rightarrow> PeerFinder" where
  "lone_finder nm ai = \<lparr>hosts = [], peers = [nm \<mapsto> [ai_id ai \<mapsto> ai]]\<rparr>"

definition lone_init :: "int \<Rightarrow> string \<Rightarrow> AddrInfo \<Rightarrow> time \<Rightarrow> run_state" where
  "lone_init cap nm ai now = run_init (NewPeerManager cap nm) (lone_finder nm ai) now"

lemma lone_is_batch: "lone_finder nm ai = batch_finder nm [ai]"
  by (simp add: lone_finder_def batch_finder_def)

lemma reach_started:
  assumes "n \<le> 500" and "int n \<le> cap + 20" and "0 < cap" and "cap < 2 ^ 61" and "k \<le> n"
  shows "run_reach id_str (lone_init cap nm ai now) (run_at cap nm (lone_finder nm ai) now LoopTop (replicate_mset k (TStart ai)) [] 0)"
  using assms(5)
proof (induction k)
  case 0
  then show ?case by (simp add: run_at_init lone_init_def run_reach.start)
next
  case (Suc k)
  let ?i = "lone_init cap nm ai now" and ?pf = "lone_finder nm ai" and ?T = "replicate_mset k (TStart ai)"
  have "range_order ?pf nm [ai_id ai]" "GetPeers ?pf nm pullBatch (Some (\<lambda>_. False)) [ai_id ai] (\<lambda>i. i) = Inr [ai]"
    using batch_pull [of "[ai]" nm] by (simp_all add: lone_is_batch)
  from at_pull [OF _ _ _ _ this, of id_str ?i cap now ?T 0] Suc assms
  have "run_reach id_str ?i (run_at cap nm ?pf now (Dispatch [ai]) ?T [] 0)" by simp
  from at_batch [of id_str ?i cap nm ?pf now "[ai]" "[]" ?T 0] this Suc.prems assms
  have "run_reach id_str ?i (run_at cap nm ?pf now (Dispatch []) (replicate_mset (Suc k) (TStart ai)) [] 0)" by simp
  then show ?case by (rule reach_step_eq [OF _ run_step.dispatch_end]) (simp_all add: run_at_eq)
qed

definition failed :: "int \<Rightarrow> string \<Rightarrow> AddrInfo \<Rightarrow> time \<Rightarrow> nat \<Rightarrow> nat \<Rightarrow> run_state" where
  "failed cap nm ai now n k =
     (run_at cap nm (lone_finder nm ai) now LoopTop (replicate_mset (n - k) (TDial ai) + replicate_mset k TDone) [] n)\<lparr>
       rs_pm := (NewPeerManager cap nm)\<lparr>DialAttempts := n,
         backoff := (if k = 0 then Map.empty
           else [ai_id ai \<mapsto> \<lparr>failCount = int k, nextDial = now + backoff_spec k\<rparr>])\<rparr>\<rparr>"

lemma reach_failed:
  assumes "run_reach id_str (lone_init cap nm ai now) (run_at cap nm (lone_finder nm ai) now LoopTop (replicate_mset n (TDial ai)) [] n)"
    and "16 \<le> length (id_str (ai_id ai))" and "n \<le> 500" and "k \<le> n"
  shows "run_reach id_str (lone_init cap nm ai now) (failed cap nm ai now n k)"
  using assms(4)
proof (induction k)
  case 0
  have "failed cap nm ai now n 0 = run_at cap nm (lone_finder nm ai) now LoopTop (replicate_mset n (TDial ai)) [] n"
    by (simp add: failed_def run_at_eq NewPeerManager_def)
  with assms(1) show ?case by simp
next
  case (Suc k)
  let ?st = "failed cap nm ai now n k"
  from Suc obtain m where m: "n - k = Suc m" "n - Suc k = m" by (metis Suc_diff_Suc Suc_le_lessD)
  have fin: "cand_finish id_str False (rs_now ?st) (rs_pm ?st) (ai_id ai) = Inr (rs_pm (failed cap nm ai now n (Suc k)))"
    using recordFailure_eq [of id_str "ai_id ai" "int k" "rs_pm ?st" now] assms(2,3) Suc.prems
    by (simp add: cand_finish_def str_slice_to_def failed_def nat_add_distrib add.commute)
  have "run_reach id_str (lone_init cap nm ai now) ?st" using Suc by simp
  then show ?case
    by (rule reach_step_eq [OF _ run_step.task_fail [OF _ _ fin, of "TDial ai"]])
      (use m in \<open>simp_all add: failed_def run_at_eq\<close>)
qed

text \<open>
  C34: one outage can cost the whole back-off.  A peer with no earlier failure can be dialled n
  times before the clock moves, and the n failures of that single outage are recorded as n
  consecutive failures, so that already the first outage can lead to the 30-minute back-off
  (n = 7) although the first failure is meant to cost 30 seconds.
\<close>

theorem one_outage_many_failures:
  assumes "16 \<le> length (id_str (ai_id ai))" and "0 < cap" and "cap < 2 ^ 61"
    and "1 \<le> n" and "n \<le> 500" and "int n \<le> cap + 20"
  shows "\<exists>st. run_reach id_str (lone_init cap nm ai now) st \<and> rs_now st = now \<and>
     backoff (rs_pm st) (ai_id ai) =
       Some \<lparr>failCount = int n, nextDial = now + min (30 * Second * 2 ^ (n - 1)) (30 * Minute)\<rparr>"
proof -
  have "run_reach id_str (lone_init cap nm ai now) (run_at cap nm (lone_finder nm ai) now LoopTop (replicate_mset n (TStart ai)) [] 0)"
    by (rule reach_started [where n = n]) (use assms in simp_all)
  from at_dial_all [of id_str "lone_init cap nm ai now" cap nm "lone_finder nm ai" now LoopTop "replicate n ai" "{#}" 0] this assms(2)
  have "run_reach id_str (lone_init cap nm ai now) (run_at cap nm (lone_finder nm ai) now LoopTop (replicate_mset n (TDial ai)) [] n)"
    by (simp add: map_replicate_const mset_replicate)
  then have "run_reach id_str (lone_init cap nm ai now) (failed cap nm ai now n n)"
    by (rule reach_failed) (use assms in simp_all)
  moreover have "rs_now (failed cap nm ai now n n) = now"
    and "backoff (rs_pm (failed cap nm ai now n n)) (ai_id ai) =
       Some \<lparr>failCount = int n, nextDial = now + backoff_spec n\<rparr>"
    using assms(4) by (simp_all add: failed_def)
  ultimately show ?thesis by (auto simp: backoff_spec_def)
qed

theorem one_outage_many_failures_witness:
  "\<exists>st. run_reach (\<lambda>_. ''16Uiu2HAm1234567'') (lone_init 80 ''a'' \<lparr>ai_id = ''p'', ai_addrs = []\<rparr> 0) st \<and> rs_now st = 0 \<and>
     backoff (rs_pm st) (ai_id \<lparr>ai_id = ''p'', ai_addrs = []\<rparr>) =
       Some \<lparr>failCount = int 7, nextDial = 0 + min (30 * Second * 2 ^ (7 - 1)) (30 * Minute)\<rparr>"
  by (rule one_outage_many_failures) simp_all

end
