(* ===== verification/Dial_Shutdown.thy ===== *)
theory Dial_Shutdown
  imports Dial_Runs
begin

text \<open>
  What happens to the goroutines of \<^verbatim>\<open>PeerManager.Run\<close>: their bookkeeping is exact for every peer cap
  (crawl mode runs with the cap 0, no cap at all), with printed IDs of at least 16
  characters none of them can panic or block on its own bookkeeping, and once \<^verbatim>\<open>Run\<close> has returned on a cancelled context they drain: together they have at most
  seven steps for each goroutine left, and when all have ended the semaphore is empty and the counter zero.
\<close>

section \<open>Bookkeeping for every cap\<close>

abbreviation in_dial :: "run_state \<Rightarrow> nat" where
  "in_dial st \<equiv> size (filter_mset (\<lambda>t. \<exists>ai. t = TDial ai \<or> t = TOpen ai) (rs_tasks st))"

text \<open>
  The semaphore counts the tasks that hold a slot, the counter counts the tasks, and a recorded
  number of failures is positive and at most the number of dials that have ended.
\<close>

definition task_inv :: "run_state \<Rightarrow> bool" where
  "task_inv st \<longleftrightarrow>
     rs_sem st = slots st \<and> rs_sem st \<le> maxConcurrentDials \<and> rs_inFlight st = int (size (rs_tasks st)) \<and>
     in_dial st \<le> DialAttempts (rs_pm st) \<and>
     (\<forall>p e. backoff (rs_pm st) p = Some e \<longrightarrow>
        0 \<le> failCount e \<and> failCount e + int (in_dial st) \<le> int (DialAttempts (rs_pm st)))"

lemma cand_finish_total:
  assumes "16 \<le> length (id_str p)"
    and "\<forall>e. backoff pm p = Some e \<longrightarrow> 0 \<le> failCount e \<and> failCount e < 2 ^ 63 - 1"
  shows "\<exists>pm'. cand_finish id_str ok now pm p = Inr pm'"
proof (cases ok)
  case True
  with assms(1) show ?thesis by (simp add: cand_finish_def str_slice_to_def)
next
  case False
  let ?fc = "case backoff pm p of Some entry \<Rightarrow> failCount entry | None \<Rightarrow> 0"
  have "0 \<le> ?fc" and "?fc < 2 ^ 63 - 1" using assms(2) by (auto split: option.splits)
  from recordFailure_eq [where fc = ?fc and id_str = id_str and pid = p and now = now, OF assms(1) refl this] False assms(1)
  show ?thesis by (simp add: cand_finish_def str_slice_to_def)
qed

lemma cand_finish_effect:
  assumes "cand_finish id_str ok now pm p = Inr pm'"
    and "\<forall>e. backoff pm p = Some e \<longrightarrow> 0 \<le> failCount e \<and> failCount e < 2 ^ 63 - 1"
  shows "DialAttempts pm' = DialAttempts pm"
    and "backoff pm' q = Some e \<Longrightarrow>
      backoff pm q = Some e \<or> (q = p \<and> failCount e = (case backoff pm p of Some e0 \<Rightarrow> failCount e0 | None \<Rightarrow> 0) + 1)"
proof -
  let ?fc = "case backoff pm p of Some entry \<Rightarrow> failCount entry | None \<Rightarrow> 0"
  have fc: "0 \<le> ?fc" "?fc < 2 ^ 63 - 1" using assms(2) by (auto split: option.splits)
  have len: "16 \<le> length (id_str p)"
    using assms(1) by (auto simp: cand_finish_def str_slice_to_def res_bind_Inr_iff Let_def split: if_splits)
  note rf = recordFailure_eq [where fc = ?fc and id_str = id_str and pid = p and now = now, OF len refl fc]
  show "DialAttempts pm' = DialAttempts pm"
    using assms(1) len by (auto simp: cand_finish_def rf str_slice_to_def clearBackoff_def Let_def split: if_splits)
  show "backoff pm' q = Some e \<Longrightarrow> backoff pm q = Some e \<or> (q = p \<and> failCount e = ?fc + 1)"
    using assms(1) len
    by (auto simp: cand_finish_def rf str_slice_to_def clearBackoff_def Let_def split: if_splits)
qed

lemma task_invD:
  assumes "task_inv st"
  shows "rs_sem st = slots st" and "rs_sem st \<le> maxConcurrentDials" and "rs_inFlight st = int (size (rs_tasks st))"
    and "in_dial st \<le> DialAttempts (rs_pm st)"
    and "backoff (rs_pm st) p = Some e \<Longrightarrow> 0 \<le> failCount e \<and> failCount e + int (in_dial st) \<le> int (DialAttempts (rs_pm st))"
  using assms by (auto simp: task_inv_def)

lemma task_inv_fc:
  assumes "task_inv st" and "DialAttempts (rs_pm st) < 2 ^ 62"
  shows "\<forall>e. backoff (rs_pm st) p = Some e \<longrightarrow> 0 \<le> failCount e \<and> failCount e < 2 ^ 63 - 1"
proof (intro allI impI)
  fix e
  assume "backoff (rs_pm st) p = Some e"
  from task_invD(5) [OF assms(1) this] have "0 \<le> failCount e" "failCount e \<le> int (DialAttempts (rs_pm st))" by linarith+
  moreover have "int (DialAttempts (rs_pm st)) < 2 ^ 62"
    using assms(2) by (metis of_nat_less_iff of_nat_numeral of_nat_power)
  ultimately show "0 \<le> failCount e \<and> failCount e < 2 ^ 63 - 1" by simp
qed

lemma task_inv_finish:
  assumes inv: "task_inv st" and bound: "DialAttempts (rs_pm st) < 2 ^ 62"
    and mem: "t \<in># rs_tasks st" "t = TDial ai \<or> t = TOpen ai"
    and fin: "cand_finish id_str ok now (rs_pm st) (ai_id ai) = Inr pm'"
  shows "task_inv (st\<lparr>rs_tasks := add_mset TDone (rs_tasks st - {#t#}), rs_pm := pm'\<rparr>)"
proof -
  obtain T where T: "rs_tasks st = add_mset t T" using mem(1) by (blast dest: multi_member_split)
  note eff = cand_finish_effect [OF fin task_inv_fc [OF inv bound]]
  let ?n = "size (filter_mset (\<lambda>t. \<exists>ai. t = TDial ai \<or> t = TOpen ai) T)"
  have n: "in_dial st = Suc ?n" using T mem(2) by auto
  have "0 \<le> failCount e \<and> failCount e + int ?n \<le> int (DialAttempts (rs_pm st))" if "backoff pm' q = Some e" for q e
    using eff(2) [OF that]
  proof
    assume "backoff (rs_pm st) q = Some e"
    from task_invD(5) [OF inv this] show ?thesis unfolding n by linarith
  next
    assume new: "q = ai_id ai \<and> failCount e = (case backoff (rs_pm st) (ai_id ai) of Some e0 \<Rightarrow> failCount e0 | None \<Rightarrow> 0) + 1"
    show ?thesis
    proof (cases "backoff (rs_pm st) (ai_id ai)")
      case None
      with new task_invD(4) [OF inv] show ?thesis unfolding n by simp
    next
      case (Some e0)
      with new task_invD(5) [OF inv Some] show ?thesis unfolding n by simp
    qed
  qed
  with inv T mem(2) eff(1) show ?thesis by (auto simp: task_inv_def)
qed

lemma task_inv_swap:
  assumes "task_inv st" and "t \<in># rs_tasks st" and "holds_slot t" and "holds_slot t'"
    and "size (filter_mset (\<lambda>t. \<exists>ai. t = TDial ai \<or> t = TOpen ai) {#t'#}) \<le>
      size (filter_mset (\<lambda>t. \<exists>ai. t = TDial ai \<or> t = TOpen ai) {#t#})"
    and "DialAttempts pm = DialAttempts (rs_pm st)" and "backoff pm = backoff (rs_pm st)"
  shows "task_inv (st\<lparr>rs_tasks := add_mset t' (rs_tasks st - {#t#}), rs_pm := pm, rs_peers := ps\<rparr>)"
proof -
  obtain T where T: "rs_tasks st = add_mset t T" using assms(2) by (blast dest: multi_member_split)
  let ?dial = "\<lambda>t. \<exists>ai. t = TDial ai \<or> t = TOpen ai"
  have "in_dial (st\<lparr>rs_tasks := add_mset t' T, rs_pm := pm, rs_peers := ps\<rparr>) \<le> in_dial st"
    using assms(5) T by (auto split: if_splits)
  moreover from this have "failCount e + int (size (filter_mset ?dial (add_mset t' T))) \<le> int (DialAttempts (rs_pm st))"
    if "backoff (rs_pm st) p = Some e" for p e
    using task_invD(5) [OF assms(1) that] T by auto
  ultimately show ?thesis using assms(1,3,4,6,7) T unfolding task_inv_def by (auto split: if_splits)
qed

lemma task_step_inv:
  assumes "run_step id_str st st'" and inv: "task_inv st" and bound: "DialAttempts (rs_pm st) < 2 ^ 62"
  shows "task_inv st'"
  using assms(1)
proof cases
  case (acquire ai ais)
  with inv show ?thesis by (auto simp: task_inv_def)
next
  case (task_connected ai)
  then show ?thesis using task_inv_swap [OF inv, of "TStart ai" TDone "rs_pm st" "rs_peers st"] by simp
next
  case (task_unconnected ai)
  then show ?thesis using task_inv_swap [OF inv, of "TStart ai" "TBackoff ai" "rs_pm st" "rs_peers st"] by simp
next
  case (task_held ai)
  then show ?thesis
    using task_inv_swap [OF inv, of "TBackoff ai" TDone "(rs_pm st)\<lparr>DialBackoffs := DialBackoffs (rs_pm st) + 1\<rparr>" "rs_peers st"] by simp
next
  case (task_free ai)
  then show ?thesis using task_inv_swap [OF inv, of "TBackoff ai" "TCap ai" "rs_pm st" "rs_peers st"] by simp
next
  case (task_at_cap ai)
  then show ?thesis using task_inv_swap [OF inv, of "TCap ai" TDone "rs_pm st" "rs_peers st"] by simp
next
  case (task_dial ai)
  from task_dial inv show ?thesis
    by (fastforce simp: task_inv_def dest!: multi_member_split)
next
  case (task_open ai)
  then show ?thesis
    using task_inv_swap [OF inv, of "TDial ai" "TOpen ai" "rs_pm st" "List.insert (ai_id ai) (rs_peers st)"] by simp
next
  case (task_fail t ai pm')
  then show ?thesis using task_inv_finish [OF inv bound, of t ai id_str False "rs_now st" pm'] by simp
next
  case (task_ok ai pm')
  then show ?thesis using task_inv_finish [OF inv bound, of "TOpen ai" ai id_str True "rs_now st" pm'] by simp
next
  case task_release
  with inv show ?thesis by (auto simp: task_inv_def dest!: multi_member_split)
next
  case task_end
  with inv show ?thesis by (auto simp: task_inv_def dest!: multi_member_split)
qed (use inv in \<open>auto simp: task_inv_def\<close>)

lemma finish_keeps_attempts:
  "cand_finish id_str ok now pm p = Inr pm' \<Longrightarrow> DialAttempts pm' = DialAttempts pm"
  by (auto simp: cand_finish_def recordFailure_def clearBackoff_def Let_def res_bind_Inr_iff split: if_splits)

lemma attempts_mono: "run_step id_str st st' \<Longrightarrow> DialAttempts (rs_pm st) \<le> DialAttempts (rs_pm st')"
  by (induction rule: run_step.induct) (auto dest: finish_keeps_attempts)

lemma task_reach_inv:
  assumes "run_reach id_str (run_init (NewPeerManager cap nm) pf now) st" and "DialAttempts (rs_pm st) < 2 ^ 62"
  shows "task_inv st"
  using assms
proof (induction rule: run_reach.induct)
  case start
  show ?case by (simp add: task_inv_def run_init_def NewPeerManager_def)
next
  case (step st st')
  from step.hyps(2) step.prems have "DialAttempts (rs_pm st) < 2 ^ 62"
    using attempts_mono by (meson order_le_less_trans)
  with step show ?case by (blast intro: task_step_inv)
qed

section \<open>Draining\<close>

text \<open>The steps a goroutine still has to make, and their sum.\<close>

fun task_weight :: "task \<Rightarrow> nat" where
  "task_weight (TStart ai) = 7"
| "task_weight (TBackoff ai) = 6"
| "task_weight (TCap ai) = 5"
| "task_weight (TDial ai) = 4"
| "task_weight (TOpen ai) = 3"
| "task_weight TDone = 2"
| "task_weight TReleased = 1"

definition drain :: "run_state \<Rightarrow> nat" where
  "drain st = sum_mset (image_mset task_weight (rs_tasks st))"

lemma drain_le: "drain st \<le> 7 * size (rs_tasks st)"
proof -
  have "sum_mset (image_mset task_weight T) \<le> 7 * size T" for T
  proof (induction T)
    case (add t T)
    have "task_weight t \<le> 7" by (cases t) simp_all
    with add show ?case by simp
  qed simp
  then show ?thesis by (simp add: drain_def)
qed

text \<open>A run after \<open>st\<close>, with the number of steps made by goroutines; the rest of the program moves freely.\<close>

inductive drain_run :: "(peer_id \<Rightarrow> string) \<Rightarrow> run_state \<Rightarrow> nat \<Rightarrow> run_state \<Rightarrow> bool" for id_str st0 where
  here: "drain_run id_str st0 0 st0"
| moves: "drain_run id_str st0 n st \<Longrightarrow> run_step id_str st st' \<Longrightarrow> rs_tasks st' \<noteq> rs_tasks st \<Longrightarrow>
     drain_run id_str st0 (Suc n) st'"
| other: "drain_run id_str st0 n st \<Longrightarrow> run_step id_str st st' \<Longrightarrow> rs_tasks st' = rs_tasks st \<Longrightarrow>
     drain_run id_str st0 n st'"

lemma returned_step:
  assumes "run_step id_str st st'" and "rs_pc st = Returned"
  shows "rs_pc st' = Returned \<and> (rs_tasks st' = rs_tasks st \<or> drain st' < drain st)"
  using assms by (induction rule: run_step.induct) (auto simp: drain_def dest!: multi_member_split)

lemma drain_run_bound:
  assumes "drain_run id_str st n st'" and "rs_pc st = Returned"
  shows "rs_pc st' = Returned \<and> n + drain st' \<le> drain st"
  using assms(1)
proof (induction rule: drain_run.induct)
  case here
  with assms(2) show ?case by simp
next
  case (moves n s s')
  from returned_step [OF moves.hyps(2)] moves.IH moves.hyps(3) show ?case by auto
next
  case (other n s s')
  from returned_step [OF other.hyps(2)] other.IH other.hyps(3) show ?case by (auto simp: drain_def)
qed

lemma drain_run_reach: "drain_run id_str st n st' \<Longrightarrow> run_reach id_str st0 st \<Longrightarrow> run_reach id_str st0 st'"
  by (induction rule: drain_run.induct) (blast intro: run_reach.step)+

text \<open>
  Every goroutine can move, whatever the outcome of its dial; the printed IDs of the candidates in
  flight have the 16 characters that are logged.
\<close>

definition long_ids :: "(peer_id \<Rightarrow> string) \<Rightarrow> run_state \<Rightarrow> bool" where
  "long_ids id_str st \<longleftrightarrow> (\<forall>ai. TDial ai \<in># rs_tasks st \<or> TOpen ai \<in># rs_tasks st \<or> TStart ai \<in># rs_tasks st \<or>
     TBackoff ai \<in># rs_tasks st \<or> TCap ai \<in># rs_tasks st \<longrightarrow> 16 \<le> length (id_str (ai_id ai)))"

lemma returned_long_ids:
  assumes "run_step id_str st st'" and "rs_pc st = Returned" and "long_ids id_str st"
  shows "long_ids id_str st'"
  using assms by (induction rule: run_step.induct) (auto simp: long_ids_def dest: in_diffD)

lemma drain_run_long_ids:
  assumes "drain_run id_str st n st'" and "rs_pc st = Returned" and "long_ids id_str st"
  shows "long_ids id_str st'"
  using assms(1)
proof (induction rule: drain_run.induct)
  case here
  with assms(3) show ?case by simp
next
  case (moves n s s')
  with drain_run_bound [OF moves.hyps(1) assms(2)] returned_long_ids show ?case by blast
next
  case (other n s s')
  with drain_run_bound [OF other.hyps(1) assms(2)] returned_long_ids show ?case by blast
qed

lemma move_task:
  assumes "run_step id_str st st'" and "rs_tasks st' = add_mset t' (rs_tasks st - {#t#})" and "t \<in># rs_tasks st"
    and "task_weight t' < task_weight t" and "rs_pc st' = rs_pc st"
  shows "\<exists>st'. run_step id_str st st' \<and> rs_pc st' = rs_pc st \<and> rs_tasks st' \<noteq> rs_tasks st \<and> drain st' < drain st"
proof -
  obtain T where "rs_tasks st = add_mset t T" using assms(3) by (blast dest: multi_member_split)
  with assms show ?thesis by (intro exI [of _ st']) (auto simp: drain_def)
qed

lemma task_can_move:
  assumes inv: "task_inv st" and bound: "DialAttempts (rs_pm st) < 2 ^ 62"
    and len: "long_ids id_str st" and mem: "t \<in># rs_tasks st"
  shows "\<exists>st'. run_step id_str st st' \<and> rs_pc st' = rs_pc st \<and> rs_tasks st' \<noteq> rs_tasks st \<and> drain st' < drain st"
proof -
  have fin: "\<exists>pm'. cand_finish id_str ok (rs_now st) (rs_pm st) (ai_id ai) = Inr pm'"
    if "TDial ai \<in># rs_tasks st \<or> TOpen ai \<in># rs_tasks st" for ai ok
    using that cand_finish_total [of id_str "ai_id ai" "rs_pm st" ok "rs_now st"] task_inv_fc [OF inv bound, of "ai_id ai"] len
    by (auto simp: long_ids_def)
  show ?thesis
  proof (cases t)
    case (TStart ai)
    show ?thesis
    proof (cases "host_connected (view st) (ai_id ai)")
      case True
      with TStart mem show ?thesis by (intro move_task [OF run_step.task_connected [of ai st], where t = "TStart ai" and t' = "TDone"]) simp_all
    next
      case False
      with TStart mem show ?thesis by (intro move_task [OF run_step.task_unconnected [of ai st], where t = "TStart ai" and t' = "TBackoff ai"]) simp_all
    qed
  next
    case (TBackoff ai)
    show ?thesis
    proof (cases "inBackoff (rs_pm st) (rs_now st) (ai_id ai)")
      case True
      with TBackoff mem show ?thesis by (intro move_task [OF run_step.task_held [of ai st], where t = "TBackoff ai" and t' = "TDone"]) simp_all
    next
      case False
      with TBackoff mem show ?thesis by (intro move_task [OF run_step.task_free [of ai st], where t = "TBackoff ai" and t' = "TCap ai"]) simp_all
    qed
  next
    case (TCap ai)
    show ?thesis
    proof (cases "atCap (view st) (rs_pm st)")
      case True
      with TCap mem show ?thesis by (intro move_task [OF run_step.task_at_cap [of ai st], where t = "TCap ai" and t' = "TDone"]) simp_all
    next
      case False
      with TCap mem show ?thesis by (intro move_task [OF run_step.task_dial [of ai st], where t = "TCap ai" and t' = "TDial ai"]) simp_all
    qed
  next
    case (TDial ai)
    with mem fin [of ai False] obtain pm' where "cand_finish id_str False (rs_now st) (rs_pm st) (ai_id ai) = Inr pm'" by blast
    with TDial mem show ?thesis by (intro move_task [OF run_step.task_fail [of t st ai], where t = t and t' = TDone]) simp_all
  next
    case (TOpen ai)
    with mem fin [of ai True] obtain pm' where "cand_finish id_str True (rs_now st) (rs_pm st) (ai_id ai) = Inr pm'" by blast
    with TOpen mem show ?thesis by (intro move_task [OF run_step.task_ok [of ai st], where t = "TOpen ai" and t' = "TDone"]) simp_all
  next
    case TDone
    with mem show ?thesis by (intro move_task [OF run_step.task_release [of st], where t = TDone and t' = TReleased]) simp_all
  next
    case TReleased
    with mem run_step.task_end [of st id_str] show ?thesis
      by (intro exI [of _ "st\<lparr>rs_tasks := rs_tasks st - {#TReleased#}, rs_inFlight := rs_inFlight st - 1\<rparr>"])
        (auto simp: drain_def dest!: multi_member_split)
  qed
qed

section \<open>Property\<close>

text \<open>
  C12: the dial goroutines drain after shutdown.  Suppose the printed IDs of the candidates in flight have the
  16 characters that the code slices off, and fewer than \<open>2 ^ 62\<close> dials have been counted.  Then, once \<^verbatim>\<open>Run\<close> has
  returned, with any peer cap and in any interleaving with the rest of the program: the goroutines left make
  altogether at most seven steps for each of them; the bookkeeping at the end of a dial does not panic, however
  the dial ends; as long as a goroutine is left, one can move; and when none is left, every semaphore slot has
  been released and the in-flight counter is zero.
\<close>

theorem dial_goroutines_drain:
  assumes "run_reach id_str (run_init (NewPeerManager cap nm) pf now) st" and "rs_pc st = Returned"
    and "long_ids id_str st"
    and "drain_run id_str st n st'" and "DialAttempts (rs_pm st') < 2 ^ 62"
  shows "n \<le> 7 * size (rs_tasks st) \<and>
     (TDial ai \<in># rs_tasks st' \<or> TOpen ai \<in># rs_tasks st' \<longrightarrow>
        (\<exists>pm'. cand_finish id_str ok t (rs_pm st') (ai_id ai) = Inr pm')) \<and>
     (rs_tasks st' \<noteq> {#} \<longrightarrow> (\<exists>st''. drain_run id_str st (Suc n) st'')) \<and>
     (rs_tasks st' = {#} \<longrightarrow> rs_sem st' = 0 \<and> rs_inFlight st' = 0)"
proof -
  have inv: "task_inv st'" using drain_run_reach [OF assms(4,1)] assms(5) by (rule task_reach_inv)
  have ids: "long_ids id_str st'" by (rule drain_run_long_ids [OF assms(4,2,3)])
  have "n \<le> 7 * size (rs_tasks st)" using drain_run_bound [OF assms(4,2)] drain_le [of st] by linarith
  moreover have "\<exists>pm'. cand_finish id_str ok t (rs_pm st') (ai_id ai) = Inr pm'"
    if "TDial ai \<in># rs_tasks st' \<or> TOpen ai \<in># rs_tasks st'"
    using that ids by (intro cand_finish_total task_inv_fc [OF inv assms(5)]) (auto simp: long_ids_def)
  moreover have "\<exists>st''. drain_run id_str st (Suc n) st''" if "rs_tasks st' \<noteq> {#}"
    using that task_can_move [OF inv assms(5) ids] drain_run.moves [OF assms(4)] by (metis multiset_nonemptyE)
  moreover have "rs_sem st' = 0 \<and> rs_inFlight st' = 0" if "rs_tasks st' = {#}"
    using that inv by (simp add: task_inv_def)
  ultimately show ?thesis by blast
qed

text \<open>
  A run that returns while two goroutines are at work: the context is cancelled when the loop waits for a
  slot for the third.
\<close>

abbreviation demo_ids :: "peer_id \<Rightarrow> string" where
  "demo_ids \<equiv> \<lambda>_. ''16Uiu2HAm1234567''"

definition demo_returned :: run_state where
  "demo_returned = run_at 5 ''a'' (batch_finder ''a'' demo_peers) 0 Returned (mset (map TDial (take 2 demo_peers))) [] 2"

lemma demo_returned_reach:
  "run_reach demo_ids (run_init (NewPeerManager 5 ''a'') (batch_finder ''a'' demo_peers) 0) demo_returned"
proof -
  let ?i = "run_init (NewPeerManager 5 ''a'') (batch_finder ''a'' demo_peers) 0" and ?pf = "batch_finder ''a'' demo_peers"
  obtain z zs where z: "drop 2 demo_peers = z # zs" using demo_peers(1) by (cases "drop 2 demo_peers") auto
  have split: "take 2 demo_peers @ z # zs = demo_peers" by (metis append_take_drop_id z)
  have "demo_peers \<noteq> []" using demo_peers(1) by auto
  then have "run_reach demo_ids ?i (run_at 5 ''a'' ?pf 0 (Dispatch (z # zs)) (mset (map TStart (take 2 demo_peers)) + {#}) [] 0)"
    using at_first_batch [of "take 2 demo_peers" "z # zs" 5 demo_ids "''a''" 0] demo_peers unfolding split by simp
  from at_dial_all [OF this] demo_peers(1)
  have "run_reach demo_ids ?i (run_at 5 ''a'' ?pf 0 (Dispatch (z # zs)) (mset (map TDial (take 2 demo_peers))) [] 2)" by simp
  from at_reserve [OF at_load [OF this]] demo_peers(1)
  have "run_reach demo_ids ?i (run_at 5 ''a'' ?pf 0 (AcquireSem z zs) (mset (map TDial (take 2 demo_peers))) [] 2)" by simp
  then show ?thesis
    by (rule reach_step_eq [OF _ run_step.acquire_done]) (simp_all add: demo_returned_def run_at_eq)
qed

theorem dial_goroutines_drain_witness:
  "rs_tasks demo_returned \<noteq> {#} \<and> (\<exists>st''. drain_run demo_ids demo_returned (Suc 0) st'')"
proof -
  have "take 2 demo_peers \<noteq> []" using demo_peers(1) by auto
  then have "rs_tasks demo_returned \<noteq> {#}" by (simp add: demo_returned_def)
  with dial_goroutines_drain [OF demo_returned_reach _ _ drain_run.here] show ?thesis
    by (simp add: demo_returned_def long_ids_def)
qed

end
