(* ===== verification/Probe_System.thy ===== *)
theory Probe_System
  imports Ownership_Spec Dial_Shutdown
begin

text \<open>
  The whole of probe mode above libp2p: the peer managers of all instances, each with its loop and
  its goroutines (\<open>Dial_Loop\<close>), over one finder, one shared set, the gaters and the inbound handlers
  (\<open>Instance_System\<close>).  A pulled batch makes its peers candidates of the instance, an outbound connection
  is secured only while a goroutine of that instance is dialling the peer, and what discovery adds
  is seen by every manager; it waits for the finder's lock while a manager pulls.  What a manager sees of its
  host's connections is left free: it may change at any time, as the environment steps of \<open>Dial_Loop\<close> allow.
\<close>

section \<open>State and steps\<close>

record probe =
  pb_sys :: system
  pb_runs :: "string \<rightharpoonup> run_state"

definition probe_init :: "(string \<Rightarrow> int) \<Rightarrow> time \<Rightarrow> string list \<Rightarrow> peer_id list \<Rightarrow> probe res" where
  "probe_init caps now names pids =
     res_bind (sys_init names pids) (\<lambda>s. Inr
       \<lparr>pb_sys = s,
        pb_runs = (\<lambda>i. if i \<in> set names then Some (run_init (NewPeerManager (caps i) i) (sy_pf s) now) else None)\<rparr>)"

text \<open>The candidates a loop has just pulled.\<close>

definition pulled :: "run_state \<Rightarrow> run_state \<Rightarrow> AddrInfo set" where
  "pulled r r' = (case rs_pc r of Scan _ _ _ _ \<Rightarrow> (case rs_pc r' of Dispatch ais \<Rightarrow> set ais | _ \<Rightarrow> {}) | _ \<Rightarrow> {})"

inductive probe_step :: "(peer_id \<Rightarrow> string) \<Rightarrow> probe \<Rightarrow> probe \<Rightarrow> bool" for id_str where
  manager: "pb_runs P i = Some r \<Longrightarrow> run_step id_str r r' \<Longrightarrow> rs_pf r' = rs_pf r \<Longrightarrow>
     probe_step id_str P (P\<lparr>pb_runs := (pb_runs P)(i \<mapsto> r'),
       pb_sys := (pb_sys P)\<lparr>sy_dials := sy_dials (pb_sys P) \<union> {i} \<times> ai_id ` pulled r r'\<rparr>\<rparr>)"
| secure_dial: "pb_runs P i = Some r \<Longrightarrow> TDial ai \<in># rs_tasks r \<Longrightarrow> sy_gater (pb_sys P) i = Some g \<Longrightarrow>
     InterceptPeerDial g (ai_id ai) \<Longrightarrow>
     InterceptSecured g (sy_reg (pb_sys P)) DirOutbound (ai_id ai) = (True, s') \<Longrightarrow>
     probe_step id_str P (P\<lparr>pb_sys := (pb_sys P)\<lparr>sy_reg := s', sy_secured := insert (i, ai_id ai) (sy_secured (pb_sys P))\<rparr>\<rparr>)"
  \<comment> \<open>discovery, inbound connections, connection events: no step here pulls or dials\<close>
| rest: "sys_step False ((pb_sys P)\<lparr>sy_dials := {}\<rparr>) s' \<Longrightarrow> sy_dials s' = {} \<Longrightarrow>
     sy_pf s' = sy_pf (pb_sys P) \<or> (\<forall>i r. pb_runs P i = Some r \<longrightarrow> \<not> scanning r) \<Longrightarrow>
     probe_step id_str P (P\<lparr>pb_sys := s'\<lparr>sy_dials := sy_dials (pb_sys P)\<rparr>,
       pb_runs := (\<lambda>i. map_option (\<lambda>r. r\<lparr>rs_pf := sy_pf s'\<rparr>) (pb_runs P i))\<rparr>)"

section \<open>Invariant\<close>

definition cands :: "run_state \<Rightarrow> AddrInfo set" where
  "cands r =
     (case rs_pc r of
        Dispatch ais \<Rightarrow> set ais
      | DispatchLoad n ai ais \<Rightarrow> insert ai (set ais)
      | AcquireSem ai ais \<Rightarrow> insert ai (set ais)
      | _ \<Rightarrow> {}) \<union>
     {ai. TStart ai \<in># rs_tasks r \<or> TBackoff ai \<in># rs_tasks r \<or> TCap ai \<in># rs_tasks r \<or>
          TDial ai \<in># rs_tasks r \<or> TOpen ai \<in># rs_tasks r}"

text \<open>The order in which a manager ranges over its peers is one of its map, which cannot change meanwhile.\<close>

definition scan_ok :: "run_state \<Rightarrow> bool" where
  "scan_ok r = (case rs_pc r of Scan order _ _ _ \<Rightarrow> range_order (rs_pf r) (instanceName (rs_pm r)) order | _ \<Rightarrow> True)"

definition probe_inv :: "string set \<Rightarrow> probe \<Rightarrow> bool" where
  "probe_inv names P \<longleftrightarrow> own_rel names (pb_sys P) \<and>
     (\<forall>i r. pb_runs P i = Some r \<longrightarrow> i \<in> names \<and> instanceName (rs_pm r) = i \<and> rs_pf r = sy_pf (pb_sys P) \<and> scan_ok r \<and>
        {i} \<times> ai_id ` cands r \<subseteq> sy_dials (pb_sys P))"

lemma cands_iff:
  "ai \<in> cands r \<longleftrightarrow>
     (case rs_pc r of
        Dispatch ais \<Rightarrow> ai \<in> set ais
      | DispatchLoad n a ais \<Rightarrow> ai \<in> insert a (set ais)
      | AcquireSem a ais \<Rightarrow> ai \<in> insert a (set ais)
      | _ \<Rightarrow> False) \<or>
     TStart ai \<in># rs_tasks r \<or> TBackoff ai \<in># rs_tasks r \<or> TCap ai \<in># rs_tasks r \<or> TDial ai \<in># rs_tasks r \<or> TOpen ai \<in># rs_tasks r"
  by (auto simp: cands_def split: run_pc.splits)

lemma run_step_name: "run_step id_str r r' \<Longrightarrow> instanceName (rs_pm r') = instanceName (rs_pm r)"
proof (induction rule: run_step.induct)
  case (task_fail t st ai pm')
  then show ?case
    by (auto simp: cand_finish_def recordFailure_def Let_def res_bind_Inr_iff)
next
  case (task_ok ai st pm')
  then show ?case
    by (auto simp: cand_finish_def clearBackoff_def Let_def res_bind_Inr_iff)
qed auto

lemma run_step_scan_ok:
  assumes "run_step id_str r r'" and "scan_ok r"
  shows "scan_ok r'"
  using assms run_step_name [OF assms(1)]
  by (induction rule: run_step.induct) (auto simp: scan_ok_def scanning_def split: run_pc.splits)

lemma run_step_cands: "run_step id_str r r' \<Longrightarrow> cands r' \<subseteq> cands r \<union> pulled r r'"
  by (induction rule: run_step.induct)
    (auto simp: cands_iff subset_iff pulled_def split: run_pc.splits dest: in_diffD)

text \<open>A pull of a manager is a pull of the system; what is pulled lies in the finder.\<close>

lemma run_step_pulled:
  assumes "run_step id_str r r'" and "scan_ok r" and "pulled r r' \<noteq> {}"
  obtains order rnd ais m ans where "peers (rs_pf r) (instanceName (rs_pm r)) = Some m" and "set order = dom m"
    and "GetPeers (rs_pf r) (instanceName (rs_pm r)) pullBatch (Some ans) order rnd = Inr ais"
    and "pulled r r' = set ais"
  using assms(1,3)
proof (cases rule: run_step.cases)
  case (pull_some order ans rnd ais)
  then obtain m where m: "peers (rs_pf r) (instanceName (rs_pm r)) = Some m"
    by (cases "peers (rs_pf r) (instanceName (rs_pm r))") (auto simp: GetPeers_def)
  moreover have "set order = dom m" using pull_some m assms(2) by (auto simp: range_order_def scan_ok_def)
  moreover have "pulled r r' = set ais" using pull_some by (simp add: pulled_def)
  ultimately show thesis using pull_some that by blast
qed (auto simp: pulled_def split: run_pc.splits)

lemma manager_step_sys:
  assumes inv: "probe_inv names P" and run: "pb_runs P i = Some r" "run_step id_str r r'"
  shows "(pb_sys P)\<lparr>sy_dials := sy_dials (pb_sys P) \<union> {i} \<times> ai_id ` pulled r r'\<rparr> = pb_sys P \<or>
     sys_step False (pb_sys P) ((pb_sys P)\<lparr>sy_dials := sy_dials (pb_sys P) \<union> {i} \<times> ai_id ` pulled r r'\<rparr>)"
proof (cases "pulled r r' = {}")
  case True
  then show ?thesis by simp
next
  case False
  from inv run(1) have r: "instanceName (rs_pm r) = i" "rs_pf r = sy_pf (pb_sys P)" "i \<in> dom (sy_gater (pb_sys P))" "scan_ok r"
    by (auto simp: probe_inv_def own_rel_def)
  from run_step_pulled [OF run(2) r(4) False] r(1,2) obtain m order rnd ais ans
    where "peers (sy_pf (pb_sys P)) i = Some m" "set order = dom m"
    and "GetPeers (sy_pf (pb_sys P)) i pullBatch (Some ans) order rnd = Inr ais"
    and p: "pulled r r' = set ais" by metis
  from sys_step.pull [OF this(3) r(3) this(1,2)] p show ?thesis by simp
qed

lemma rest_step_sys:
  assumes "sys_step False (s\<lparr>sy_dials := {}\<rparr>) s'" and "sy_dials s' = {}"
  shows "s'\<lparr>sy_dials := sy_dials s\<rparr> = s \<or> sys_step False s (s'\<lparr>sy_dials := sy_dials s\<rparr>)"
  using assms(1)
proof cases
  case (discover ai pf' r')
  with sys_step.discover [of s ai pf' r' False] show ?thesis by simp
next
  case (pull i cnt skip order rnd ais m)
  with assms(2) show ?thesis by simp
next
  case (accept i g dir p r')
  with sys_step.accept [of s i g dir p r' False] show ?thesis by simp
next
  case (reject i g dir p r')
  with sys_step.reject [of s i g dir p r' False] show ?thesis by simp
next
  case (establish i p)
  with sys_step.establish [of i p s False] show ?thesis by (cases "(i, p) \<in> sy_conns s") simp_all
next
  case (abort i p)
  with sys_step.abort [of False s i p] show ?thesis by simp
next
  case (event i p close r')
  with sys_step.event [of i p s close r' False] show ?thesis by (cases close) simp_all
next
  case (disconnect i p)
  with sys_step.disconnect [of False s i p] show ?thesis by simp
qed simp_all

lemma sys_step_dials_mono: "sys_step px s s' \<Longrightarrow> sy_dials s \<subseteq> sy_dials s'"
  by (induction rule: sys_step.induct) auto

lemma probe_simulates_sys:
  assumes "probe_inv names P" and "probe_step id_str P P'"
  shows "pb_sys P' = pb_sys P \<or> sys_step False (pb_sys P) (pb_sys P')"
  using assms(2)
proof cases
  case (manager i r r')
  with manager_step_sys [OF assms(1)] show ?thesis by simp
next
  case (secure_dial i r ai g s')
  with assms(1) have "(i, ai_id ai) \<in> sy_dials (pb_sys P)" by (force simp: probe_inv_def cands_iff)
  from sys_step.dial [OF this, of g s' False] secure_dial show ?thesis by simp
next
  case (rest s')
  with rest_step_sys show ?thesis by simp
qed

lemma probe_keeps:
  assumes inv: "probe_inv names P" and step: "probe_step id_str P P'"
  shows "probe_inv names P'"
proof -
  have "own_rel names (pb_sys P')"
    using inv probe_simulates_sys [OF inv step] own_rel_keeps by (auto simp: probe_inv_def)
  moreover have "i \<in> names \<and> instanceName (rs_pm r) = i \<and> rs_pf r = sy_pf (pb_sys P') \<and> scan_ok r \<and>
      {i} \<times> ai_id ` cands r \<subseteq> sy_dials (pb_sys P')" if "pb_runs P' i = Some r" for i r
    using step
  proof cases
    case (manager k q q')
    show ?thesis
    proof (cases "i = k")
      case True
      with manager(1) that have r: "r = q'" by simp
      from inv manager(2) True have q: "i \<in> names" "instanceName (rs_pm q) = i" "rs_pf q = sy_pf (pb_sys P)" "scan_ok q"
        "{i} \<times> ai_id ` cands q \<subseteq> sy_dials (pb_sys P)" by (auto simp: probe_inv_def)
      have "{i} \<times> ai_id ` cands q' \<subseteq> {i} \<times> ai_id ` cands q \<union> {i} \<times> ai_id ` pulled q q'"
        using run_step_cands [OF manager(3)] by blast
      also have "\<dots> \<subseteq> sy_dials (pb_sys P')" using q(5) manager(1) True by auto
      finally have "{i} \<times> ai_id ` cands q' \<subseteq> sy_dials (pb_sys P')" .
      with q r manager(1,4) run_step_name [OF manager(3)] run_step_scan_ok [OF manager(3)] show ?thesis by simp
    next
      case False
      with manager(1) that have "pb_runs P i = Some r" by simp
      with inv have "i \<in> names \<and> instanceName (rs_pm r) = i \<and> rs_pf r = sy_pf (pb_sys P) \<and> scan_ok r \<and>
        {i} \<times> ai_id ` cands r \<subseteq> sy_dials (pb_sys P)" by (simp add: probe_inv_def)
      with manager(1) show ?thesis by auto
    qed
  next
    case (secure_dial k q ai g s')
    with that inv show ?thesis by (simp add: probe_inv_def)
  next
    case (rest s')
    with that obtain z where z: "pb_runs P i = Some z" "r = z\<lparr>rs_pf := sy_pf s'\<rparr>" by auto
    then have "cands r = cands z" by (simp add: cands_def)
    moreover from inv z(1) have "i \<in> names \<and> instanceName (rs_pm z) = i \<and> rs_pf z = sy_pf (pb_sys P) \<and> scan_ok z \<and>
        {i} \<times> ai_id ` cands z \<subseteq> sy_dials (pb_sys P)"
      by (simp add: probe_inv_def)
    moreover from rest(4) z(1) have "sy_pf s' = sy_pf (pb_sys P) \<or> \<not> scanning z" by blast
    ultimately show ?thesis
      using rest(1) z(2) by (auto simp: scan_ok_def scanning_def split: run_pc.splits)
  qed
  ultimately show ?thesis by (simp add: probe_inv_def)
qed

interpretation pbs: simulation "probe_step id_str" "sys_step False" pb_sys "probe_inv names"
  by unfold_locales (fact probe_keeps, fact probe_simulates_sys)

text \<open>Seen from one instance, everything else in the probe is its environment.\<close>

definition pb_run :: "string \<Rightarrow> probe \<Rightarrow> run_state" where
  "pb_run i P = the (pb_runs P i)"

definition same_finder :: "probe \<Rightarrow> bool" where
  "same_finder P \<longleftrightarrow> (\<forall>i r. pb_runs P i = Some r \<longrightarrow> rs_pf r = sy_pf (pb_sys P))"

lemma same_finder_keeps: "probe_step id_str P P' \<Longrightarrow> same_finder P \<Longrightarrow> same_finder P'"
  by (induction rule: probe_step.induct) (auto simp: same_finder_def split: if_splits)

interpretation pbr: simulation "probe_step id_str" "run_step id_str" "pb_run i" "\<lambda>P. i \<in> dom (pb_runs P) \<and> same_finder P"
proof
  fix P P'
  assume inv: "i \<in> dom (pb_runs P) \<and> same_finder P" and step: "probe_step id_str P P'"
  from step inv have "i \<in> dom (pb_runs P')" by cases auto
  with same_finder_keeps [OF step] inv show "i \<in> dom (pb_runs P') \<and> same_finder P'" by blast
  from inv obtain q where q: "pb_runs P i = Some q" "rs_pf q = sy_pf (pb_sys P)" by (auto simp: same_finder_def)
  from step show "pb_run i P' = pb_run i P \<or> run_step id_str (pb_run i P) (pb_run i P')"
  proof cases
    case (manager k r r')
    then show ?thesis by (auto simp: pb_run_def)
  next
    case (rest s')
    show ?thesis
    proof (cases "sy_pf s' = sy_pf (pb_sys P)")
      case True
      with rest(1) q show ?thesis by (simp add: pb_run_def)
    next
      case False
      with rest(4) q(1) have "\<not> scanning q" by blast
      with rest(1) q(1) run_step.discovered [of q id_str "sy_pf s'"] show ?thesis by (simp add: pb_run_def)
    qed
  qed (simp add: pb_run_def)
qed

lemma run_rtranclp_reach: "(run_step id_str)\<^sup>*\<^sup>* r0 r \<Longrightarrow> run_reach id_str r0 r"
  by (induction rule: rtranclp_induct) (auto intro: run_reach.intros)

lemma probe_init_inv:
  assumes "probe_init caps now names pids = Inr P0" and "distinct names" and "length pids = length names"
  shows "probe_inv (set names) P0" and "sys_init names pids = Inr (pb_sys P0)"
    and "i \<in> set names \<Longrightarrow> pb_runs P0 i = Some (run_init (NewPeerManager (caps i) i) (sy_pf (pb_sys P0)) now)"
    and "dom (pb_runs P0) = set names"
proof -
  from assms(1) obtain s where s: "sys_init names pids = Inr s"
    and P0: "P0 = \<lparr>pb_sys = s, pb_runs = (\<lambda>i. if i \<in> set names then Some (run_init (NewPeerManager (caps i) i) (sy_pf s) now) else None)\<rparr>"
    by (auto simp: probe_init_def res_bind_Inr_iff)
  with own_rel_init(1) [OF s assms(2,3)] show "probe_inv (set names) P0"
    by (auto simp: probe_inv_def run_init_def NewPeerManager_def cands_def scan_ok_def split: if_splits)
  show "sys_init names pids = Inr (pb_sys P0)"
    and "i \<in> set names \<Longrightarrow> pb_runs P0 i = Some (run_init (NewPeerManager (caps i) i) (sy_pf (pb_sys P0)) now)"
    and "dom (pb_runs P0) = set names"
    using s P0 by (auto split: if_splits)
qed

lemma probe_run_reach:
  assumes "probe_init caps now names pids = Inr P0" and "distinct names" and "length pids = length names"
    and "(probe_step id_str)\<^sup>*\<^sup>* P0 P" and "pb_runs P i = Some r"
  shows "i \<in> set names" and "run_reach id_str (run_init (NewPeerManager (caps i) i) (sy_pf (pb_sys P0)) now) r"
proof -
  note init = probe_init_inv [OF assms(1-3)]
  show i: "i \<in> set names"
    using pbs.run_inv [OF assms(4) init(1)] assms(5) by (auto simp: probe_inv_def)
  have "same_finder P0" using init(1) by (auto simp: probe_inv_def same_finder_def)
  with i pbr.run_refines [OF assms(4), of i] init(3,4)
  have "(run_step id_str)\<^sup>*\<^sup>* (run_init (NewPeerManager (caps i) i) (sy_pf (pb_sys P0)) now) (pb_run i P)"
    by (simp add: pb_run_def)
  then show "run_reach id_str (run_init (NewPeerManager (caps i) i) (sy_pf (pb_sys P0)) now) r"
    using assms(5) by (intro run_rtranclp_reach) (simp add: pb_run_def)
qed

lemma probe_dials_owned:
  assumes "probe_inv names P" and "pb_runs P i = Some r" and "ai \<in> cands r"
  shows "assignments (sy_reg (pb_sys P)) (ai_id ai) = Some i"
proof -
  have "(i, ai_id ai) \<in> sy_dials (pb_sys P)" using assms by (fastforce simp: probe_inv_def)
  with assms(1) show ?thesis by (auto simp: probe_inv_def own_rel_def sys_inv_def owned_def)
qed

section \<open>A concrete run\<close>

text \<open>Discovery finds a peer; the first of two instances owns it, pulls it and dials it.\<close>

definition demo_ai :: AddrInfo where
  "demo_ai = \<lparr>ai_id = ''p'', ai_addrs = []\<rparr>"

definition demo_found :: system where
  "demo_found = demo_init\<lparr>
     sy_pf := (sy_pf demo_init)\<lparr>peers := (peers (sy_pf demo_init))(''a'' \<mapsto> [''p'' \<mapsto> demo_ai])\<rparr>,
     sy_reg := \<lparr>assignments = [''p'' \<mapsto> ''a''], instances = [''a'', ''b''], nextIdx = 1\<rparr>\<rparr>"

definition demo_manager :: "string \<Rightarrow> run_state" where
  "demo_manager i = run_init (NewPeerManager 80 i) (sy_pf demo_found) 0"

definition demo_probe :: "run_state \<Rightarrow> peer_id set \<Rightarrow> probe" where
  "demo_probe r ps = \<lparr>pb_sys = demo_found\<lparr>sy_dials := {''a''} \<times> ps\<rparr>, pb_runs = [''a'' \<mapsto> r, ''b'' \<mapsto> demo_manager ''b'']\<rparr>"

abbreviation demo_at :: "run_pc \<Rightarrow> task multiset \<Rightarrow> nat \<Rightarrow> run_state" where
  "demo_at pc T k \<equiv> run_at 80 ''a'' (sy_pf demo_found) 0 pc T [] k"

definition demo_dialling :: run_state where
  "demo_dialling = demo_at (Dispatch []) {#TDial demo_ai#} 1"

definition demo_start_probe :: probe where
  "demo_start_probe = \<lparr>pb_sys = demo_init,
     pb_runs = (\<lambda>i. if i \<in> set [''a'', ''b''] then Some (run_init (NewPeerManager 80 i) (sy_pf demo_init) 0) else None)\<rparr>"

lemma demo_probe_init: "probe_init (\<lambda>_. 80) 0 [''a'', ''b''] [''A'', ''B''] = Inr demo_start_probe"
  by (simp add: probe_init_def demo_init demo_start_probe_def)

lemma demo_manager_step:
  assumes "(probe_step id_str)\<^sup>*\<^sup>* P0 (demo_probe r ps)" and "run_step id_str r r'" and "rs_pf r' = rs_pf r"
    and "ps' = ps \<union> ai_id ` pulled r r'" and "r'' = r'"
  shows "(probe_step id_str)\<^sup>*\<^sup>* P0 (demo_probe r'' ps')"
proof -
  have "probe_step id_str (demo_probe r ps)
      ((demo_probe r ps)\<lparr>pb_runs := (pb_runs (demo_probe r ps))(''a'' \<mapsto> r'),
        pb_sys := (pb_sys (demo_probe r ps))\<lparr>sy_dials := sy_dials (pb_sys (demo_probe r ps)) \<union> {''a''} \<times> ai_id ` pulled r r'\<rparr>\<rparr>)"
    by (rule probe_step.manager) (simp_all add: assms demo_probe_def)
  also have "\<dots> = demo_probe r'' ps'"
    using assms(4,5) by (simp add: demo_probe_def fun_upd_twist Sigma_Un_distrib2)
  finally show ?thesis using assms(1) by (rule rtranclp.rtrancl_into_rtrancl [rotated])
qed

lemma demo_discovery: "(probe_step id_str)\<^sup>*\<^sup>* demo_start_probe (demo_probe (demo_manager ''a'') {})"
proof -
  have "sys_step False (demo_init\<lparr>sy_dials := {}\<rparr>)
      (demo_init\<lparr>sy_dials := {}, sy_pf := sy_pf demo_found, sy_reg := sy_reg demo_found\<rparr>)"
    by (rule sys_step.discover [where ai = demo_ai])
      (simp add: AddPeer_def AssignOrGet_def demo_found_def demo_ai_def demo_init_def NewPeerFinder_def Let_def)
  from probe_step.rest [where P = demo_start_probe and id_str = id_str, of "demo_init\<lparr>sy_dials := {}, sy_pf := sy_pf demo_found, sy_reg := sy_reg demo_found\<rparr>"] this
  have "probe_step id_str demo_start_probe (demo_start_probe\<lparr>pb_sys := demo_found,
      pb_runs := (\<lambda>i. map_option (\<lambda>r. r\<lparr>rs_pf := sy_pf demo_found\<rparr>) (pb_runs demo_start_probe i))\<rparr>)"
    by (simp add: demo_start_probe_def demo_found_def demo_init_def scanning_def run_init_def)
  also have "\<dots> = demo_probe (demo_manager ''a'') {}"
    by (auto simp: demo_start_probe_def demo_probe_def demo_manager_def run_init_def fun_eq_iff demo_found_def demo_init_def)
  finally show ?thesis by blast
qed

lemma demo_probe_reach:
  "(probe_step id_str)\<^sup>*\<^sup>* demo_start_probe (demo_probe demo_dialling {''p''})"
proof -
  have finder: "peers (sy_pf demo_found) ''a'' = Some [''p'' \<mapsto> demo_ai]" by (simp add: demo_found_def)
  then have order: "range_order (sy_pf demo_found) ''a'' [''p'']" by (simp add: range_order_def)
  have pull: "GetPeers (sy_pf demo_found) ''a'' pullBatch (Some ((\<lambda>_. False)(''p'' := False))) [''p''] (\<lambda>_. 0) = Inr [demo_ai]"
    by (simp add: GetPeers_def finder skips_def pullBatch_def go_shuffle_def)
  have free: "\<not> tooManyInFlight ((NewPeerManager 80 ''a'')\<lparr>DialAttempts := 0\<rparr>) 0 0" by (rule room_not_busy) simp_all
  note states = run_at_eq pulled_def demo_ai_def maxConcurrentDials_def atCap_def
  have "(probe_step id_str)\<^sup>*\<^sup>* demo_start_probe (demo_probe (demo_at LoopTop {#} 0) {})"
    using demo_discovery by (simp add: run_at_init demo_manager_def)
  then have "(probe_step id_str)\<^sup>*\<^sup>* demo_start_probe (demo_probe (demo_at (TopLoad 0) {#} 0) {})"
    by (rule demo_manager_step [OF _ run_step.top_peers]) (simp_all add: states)
  then have "(probe_step id_str)\<^sup>*\<^sup>* demo_start_probe (demo_probe (demo_at (Pull) {#} 0) {})"
    by (rule demo_manager_step [OF _ run_step.top_pull]) (use free in \<open>simp_all add: states\<close>)
  then have "(probe_step id_str)\<^sup>*\<^sup>* demo_start_probe (demo_probe (demo_at (Scan [''p''] [''p''] (\<lambda>_. False) False) {#} 0) {})"
    by (rule demo_manager_step [OF _ run_step.pull_lock [where order = "[''p'']"]]) (use order in \<open>simp_all add: states\<close>)
  then have "(probe_step id_str)\<^sup>*\<^sup>* demo_start_probe (demo_probe (demo_at (Scan [''p''] [''p''] (\<lambda>_. False) True) {#} 0) {})"
    by (rule demo_manager_step [OF _ run_step.pull_unconnected]) (simp_all add: states)
  then have "(probe_step id_str)\<^sup>*\<^sup>* demo_start_probe (demo_probe (demo_at (Scan [''p''] [] ((\<lambda>_. False)(''p'' := False)) False) {#} 0) {})"
    by (rule demo_manager_step [OF _ run_step.pull_backoff]) (simp_all add: states)
  then have "(probe_step id_str)\<^sup>*\<^sup>* demo_start_probe (demo_probe (demo_at (Dispatch [demo_ai]) {#} 0) {''p''})"
    by (rule demo_manager_step [OF _ run_step.pull_some [where ais = "[demo_ai]" and rnd = "\<lambda>_. 0"]]) (use pull in \<open>simp_all add: states\<close>)
  then have "(probe_step id_str)\<^sup>*\<^sup>* demo_start_probe (demo_probe (demo_at (DispatchLoad 0 demo_ai []) {#} 0) {''p''})"
    by (rule demo_manager_step [OF _ run_step.dispatch_peers]) (simp_all add: states)
  then have "(probe_step id_str)\<^sup>*\<^sup>* demo_start_probe (demo_probe (demo_at (AcquireSem demo_ai []) {#} 0) {''p''})"
    by (rule demo_manager_step [OF _ run_step.dispatch_next]) (use free in \<open>simp_all add: states\<close>)
  then have "(probe_step id_str)\<^sup>*\<^sup>* demo_start_probe (demo_probe (demo_at (Dispatch []) {#TStart demo_ai#} 0) {''p''})"
    by (rule demo_manager_step [OF _ run_step.acquire]) (simp_all add: states)
  then have "(probe_step id_str)\<^sup>*\<^sup>* demo_start_probe (demo_probe (demo_at (Dispatch []) {#TBackoff demo_ai#} 0) {''p''})"
    by (rule demo_manager_step [OF _ run_step.task_unconnected [where ai = demo_ai]]) (simp_all add: states)
  then have "(probe_step id_str)\<^sup>*\<^sup>* demo_start_probe (demo_probe (demo_at (Dispatch []) {#TCap demo_ai#} 0) {''p''})"
    by (rule demo_manager_step [OF _ run_step.task_free [where ai = demo_ai]]) (simp_all add: states)
  then show ?thesis
    by (rule demo_manager_step [OF _ run_step.task_dial [where ai = demo_ai]]) (simp_all add: states demo_dialling_def)
qed

section \<open>Properties\<close>

text \<open>
  C2: instances never dial for each other.  In every reachable state of the whole probe, with all
  managers, discovery and inbound connections interleaved, every candidate a manager holds (pulled and
  not yet dispatched, waiting for a slot, being checked, being dialled) is owned by its instance; so no two
  instances hold or dial the same peer at the same time, and no two are connected to the same peer.
\<close>

theorem probe_dials_disjoint:
  assumes "probe_init caps now names pids = Inr P0" and "distinct names" and "length pids = length names"
    and "(probe_step id_str)\<^sup>*\<^sup>* P0 P"
    and "pb_runs P i = Some r" and "pb_runs P j = Some q"
  shows "(\<forall>ai \<in> cands r. Owner (sy_reg (pb_sys P)) (ai_id ai) = i) \<and>
     (ai_id ` cands r \<inter> ai_id ` cands q \<noteq> {} \<longrightarrow> i = j) \<and>
     ((i, p) \<in> sy_conns (pb_sys P) \<longrightarrow> (j, p) \<in> sy_conns (pb_sys P) \<longrightarrow> i = j)"
proof -
  have inv: "probe_inv (set names) P" using pbs.run_inv [OF assms(4)] probe_init_inv(1) [OF assms(1-3)] .
  have held: "\<forall>ai \<in> cands r. assignments (sy_reg (pb_sys P)) (ai_id ai) = Some i"
    "\<forall>ai \<in> cands q. assignments (sy_reg (pb_sys P)) (ai_id ai) = Some j"
    using probe_dials_owned [OF inv] assms(5,6) by blast+
  moreover from held have "ai_id ` cands r \<inter> ai_id ` cands q \<noteq> {} \<longrightarrow> i = j" by force
  moreover have "assignments (sy_reg (pb_sys P)) p = Some k" if "(k, p) \<in> sy_conns (pb_sys P)" for k
    using own_rel_owned [of "set names" "pb_sys P" k p] inv that by (simp add: probe_inv_def)
  from this [of i] this [of j] have "(i, p) \<in> sy_conns (pb_sys P) \<longrightarrow> (j, p) \<in> sy_conns (pb_sys P) \<longrightarrow> i = j" by auto
  ultimately show ?thesis by (simp add: Owner_def)
qed

theorem probe_dials_disjoint_witness:
  "demo_ai \<in> cands demo_dialling \<and> Owner (sy_reg (pb_sys (demo_probe demo_dialling {''p''}))) (ai_id demo_ai) = ''a''"
proof -
  have "demo_ai \<in> cands demo_dialling" by (simp add: demo_dialling_def cands_iff)
  with probe_dials_disjoint [OF demo_probe_init _ _ demo_probe_reach, of "''a''" demo_dialling "''b''" "demo_manager ''b''"]
  show ?thesis by (simp add: demo_probe_def)
qed

text \<open>
  Each manager keeps its limits inside the whole probe: what holds for a manager alone, in an environment
  that may do anything, holds for the managers of all instances together.
\<close>

lemma probe_respects_caps:
  assumes "probe_init caps now names pids = Inr P0" and "distinct names" and "length pids = length names"
    and "(probe_step id_str)\<^sup>*\<^sup>* P0 P" and "pb_runs P i = Some r"
    and "0 < caps i" and "caps i < 2 ^ 61" and "rs_inbound r < 2 ^ 61"
  shows "slots r \<le> 500 \<and> rs_inFlight r \<le> caps i + 20 \<and>
     int (length (rs_peers r)) \<le> caps i + 20 + dial_room (caps i) + int (rs_inbound r)"
proof -
  have "run_inv (caps i) r"
    using probe_run_reach(2) [OF assms(1-5)]
    by (rule run_reach_inv) (use assms(6-8) in simp_all)
  then show ?thesis unfolding run_inv_def committed_def maxConcurrentDials_def by linarith
qed

end
