(* ===== verification/User_Agent.thy ===== *)
theory User_Agent
  imports Libp2p_Env
begin

text \<open>
  \<^verbatim>\<open>node/useragent.go\<close>: the normalisation of user-agent strings and the tracker that keeps, per
  normalised agent, the number of connected peers.  The map of counts and the Prometheus gauge
  are separate pieces of state in the source, and so here.  A count is at most the number of
  tracked peers, so the width of Go's \<^verbatim>\<open>int\<close> plays no role.
\<close>

section \<open>Strings\<close>

definition peerShort :: "(peer_id \<Rightarrow> string) \<Rightarrow> peer_id \<Rightarrow> string res" where
  "peerShort id_str pid =
     (let s = id_str pid in if length s > 16 then str_slice_to s 16 else Inr s)"

definition normalizeUserAgent :: "string \<Rightarrow> string" where
  "normalizeUserAgent raw =
     (if raw = '''' then ''unknown''
      else (case str_cut ''/'' raw of (name, version, ok) \<Rightarrow>
        if \<not> ok then raw
        else
          let (pre, ver) = (if prefix ''v'' version then (''v'', drop 1 version) else ('''', version));
              (major, _, _) = str_cut ''.'' ver
          in name @ ''/'' @ pre @ major))"

section \<open>The tracker\<close>

record ua_state =
  ua_peers :: "peer_id \<rightharpoonup> string"
  ua_counts :: "string \<rightharpoonup> int"
  ua_gauge :: "string \<Rightarrow> int"

definition ua_empty :: ua_state where
  "ua_empty = \<lparr>ua_peers = Map.empty, ua_counts = Map.empty, ua_gauge = (\<lambda>_. 0)\<rparr>"

definition count_of :: "(string \<rightharpoonup> int) \<Rightarrow> string \<Rightarrow> int" where
  "count_of m k = (case m k of None \<Rightarrow> 0 | Some n \<Rightarrow> n)"

text \<open>\<^verbatim>\<open>counts[old]--; if counts[old] <= 0 { delete }\<close>, and the gauge's \<^verbatim>\<open>Dec\<close>; the same lines serve a
  re-identification and a disconnect.\<close>

definition drop_agent :: "ua_state \<Rightarrow> string \<Rightarrow> ua_state" where
  "drop_agent st old =
     (let c = count_of (ua_counts st) old - 1;
          counts = (ua_counts st)(old \<mapsto> c);
          counts = (if c \<le> 0 then counts(old := None) else counts)
      in st\<lparr>ua_counts := counts, ua_gauge := (ua_gauge st)(old := ua_gauge st old - 1)\<rparr>)"

definition on_identified :: "ua_state \<Rightarrow> peer_id \<Rightarrow> string \<Rightarrow> ua_state" where
  "on_identified st p agentVersion =
     (let ua = normalizeUserAgent agentVersion;
          st1 = (case ua_peers st p of Some old \<Rightarrow> drop_agent st old | None \<Rightarrow> st)
      in st1\<lparr>ua_peers := (ua_peers st1)(p \<mapsto> ua),
             ua_counts := (ua_counts st1)(ua \<mapsto> count_of (ua_counts st1) ua + 1),
             ua_gauge := (ua_gauge st1)(ua := ua_gauge st1 ua + 1)\<rparr>)"

definition on_connectedness :: "ua_state \<Rightarrow> peer_id \<Rightarrow> connectedness \<Rightarrow> ua_state" where
  "on_connectedness st p c =
     (if c \<noteq> NotConnected then st
      else (case ua_peers st p of
              None \<Rightarrow> st
            | Some ua \<Rightarrow> drop_agent (st\<lparr>ua_peers := (ua_peers st)(p := None)\<rparr>) ua))"

text \<open>One turn of the \<^verbatim>\<open>select\<close>.\<close>

datatype ua_in =
    UaCtxDone
  | UaIdentClosed
  | UaIdent peer_id string
  | UaConnClosed
  | UaConn peer_id connectedness
  | UaTick

fun ua_loop :: "ua_state \<Rightarrow> ua_in list \<Rightarrow> ua_state" where
  "ua_loop st [] = st"
| "ua_loop st (UaCtxDone # evs) = st"
| "ua_loop st (UaIdentClosed # evs) = st"
| "ua_loop st (UaIdent p av # evs) = ua_loop (on_identified st p av) evs"
| "ua_loop st (UaConnClosed # evs) = st"
| "ua_loop st (UaConn p c # evs) = ua_loop (on_connectedness st p c) evs"
| "ua_loop st (UaTick # evs) = ua_loop st evs"

definition TrackUserAgents :: "bool \<Rightarrow> bool \<Rightarrow> ua_in list \<Rightarrow> ua_state" where
  "TrackUserAgents identSub_ok connSub_ok evs =
     (if \<not> identSub_ok then ua_empty
      else if \<not> connSub_ok then ua_empty
      else ua_loop ua_empty evs)"

section \<open>Invariant\<close>

definition agents :: "ua_state \<Rightarrow> string \<Rightarrow> peer_id set" where
  "agents st ua = {p. ua_peers st p = Some ua}"

definition ua_exact :: "(string \<Rightarrow> nat) \<Rightarrow> ua_state \<Rightarrow> bool" where
  "ua_exact n st \<longleftrightarrow>
     (\<forall>ua. ua_counts st ua = (if n ua = 0 then None else Some (int (n ua))) \<and> ua_gauge st ua = int (n ua))"

definition ua_inv :: "ua_state \<Rightarrow> bool" where
  "ua_inv st \<longleftrightarrow> finite (dom (ua_peers st)) \<and> ua_exact (\<lambda>ua. card (agents st ua)) st"

lemma agents_finite: "finite (dom (ua_peers st)) \<Longrightarrow> finite (agents st ua)"
  by (rule finite_subset [of _ "dom (ua_peers st)"]) (auto simp: agents_def)

lemma drop_agent_peers [simp]: "ua_peers (drop_agent st old) = ua_peers st"
  by (simp add: drop_agent_def Let_def)

lemma drop_agent_exact:
  "ua_exact n st \<Longrightarrow> 0 < n old \<Longrightarrow> ua_exact (n(old := n old - 1)) (drop_agent st old)"
  by (auto simp: ua_exact_def drop_agent_def count_of_def Let_def)

lemma exact_add:
  "ua_exact n st \<Longrightarrow> ua_exact (n(ua := n ua + 1))
     (st\<lparr>ua_peers := ps, ua_counts := (ua_counts st)(ua \<mapsto> count_of (ua_counts st) ua + 1),
         ua_gauge := (ua_gauge st)(ua := ua_gauge st ua + 1)\<rparr>)"
  by (auto simp: ua_exact_def count_of_def)

text \<open>Numbers of peers per agent without one peer.\<close>

definition others :: "ua_state \<Rightarrow> peer_id \<Rightarrow> string \<Rightarrow> nat" where
  "others st p ua = card (agents st ua - {p})"

lemma others_tracked:
  assumes "finite (dom (ua_peers st))" and "ua_peers st p = Some old"
  shows "others st p = (\<lambda>ua. card (agents st ua))(old := card (agents st old) - 1)"
    and "0 < card (agents st old)"
proof -
  have "p \<in> agents st old" and "ua \<noteq> old \<Longrightarrow> p \<notin> agents st ua" for ua
    using assms(2) by (auto simp: agents_def)
  then show "others st p = (\<lambda>ua. card (agents st ua))(old := card (agents st old) - 1)"
    and "0 < card (agents st old)"
    using agents_finite [OF assms(1)] by (auto simp: others_def fun_eq_iff card_gt_0_iff)
qed

lemma others_untracked: "ua_peers st p = None \<Longrightarrow> others st p = (\<lambda>ua. card (agents st ua))"
  by (auto simp: others_def agents_def fun_eq_iff intro!: arg_cong [where f = card])

lemma agents_card_update:
  assumes "finite (dom (ua_peers st))" and "ua_peers st' = (ua_peers st)(p \<mapsto> ua)"
  shows "(\<lambda>x. card (agents st' x)) = (others st p)(ua := others st p ua + 1)"
proof
  fix x
  have "agents st' x = (if x = ua then insert p (agents st x - {p}) else agents st x - {p})"
    using assms(2) by (auto simp: agents_def split: if_splits)
  moreover have "card (insert p (agents st x - {p})) = Suc (card (agents st x - {p}))"
    using agents_finite [OF assms(1)] by (intro card_insert_disjoint) auto
  ultimately show "card (agents st' x) = ((others st p)(ua := others st p ua + 1)) x"
    by (cases "x = ua") (simp_all add: others_def)
qed

lemma agents_card_remove:
  assumes "ua_peers st' = (ua_peers st)(p := None)"
  shows "(\<lambda>x. card (agents st' x)) = others st p"
  using assms by (auto simp: others_def agents_def fun_eq_iff intro!: arg_cong [where f = card])

lemma ua_exact_cong: "ua_counts st = ua_counts st' \<Longrightarrow> ua_gauge st = ua_gauge st' \<Longrightarrow> ua_exact n st = ua_exact n st'"
  by (simp add: ua_exact_def)

lemma on_identified_inv:
  assumes "ua_inv st"
  shows "ua_inv (on_identified st p av)"
proof -
  let ?ua = "normalizeUserAgent av"
  define st1 where "st1 = (case ua_peers st p of Some old \<Rightarrow> drop_agent st old | None \<Rightarrow> st)"
  from assms have fin: "finite (dom (ua_peers st))" and ex: "ua_exact (\<lambda>ua. card (agents st ua)) st"
    by (simp_all add: ua_inv_def)
  have st1: "ua_peers st1 = ua_peers st" and ex1: "ua_exact (others st p) st1"
  proof -
    show "ua_peers st1 = ua_peers st" by (simp add: st1_def split: option.splits)
    show "ua_exact (others st p) st1"
    proof (cases "ua_peers st p")
      case None
      with ex show ?thesis by (simp add: st1_def others_untracked)
    next
      case (Some old)
      with ex drop_agent_exact [OF ex, of old] others_tracked [OF fin Some] show ?thesis
        by (simp add: st1_def)
    qed
  qed
  have eq: "on_identified st p av = st1\<lparr>ua_peers := (ua_peers st)(p \<mapsto> ?ua),
      ua_counts := (ua_counts st1)(?ua \<mapsto> count_of (ua_counts st1) ?ua + 1),
      ua_gauge := (ua_gauge st1)(?ua := ua_gauge st1 ?ua + 1)\<rparr>"
    using st1 by (simp add: on_identified_def st1_def Let_def)
  have "(\<lambda>x. card (agents (on_identified st p av) x)) = (others st p)(?ua := others st p ?ua + 1)"
    by (rule agents_card_update [OF fin]) (simp add: eq)
  then show ?thesis
    using fin exact_add [OF ex1, of ?ua "(ua_peers st)(p \<mapsto> ?ua)"] by (simp add: ua_inv_def eq)
qed

lemma on_connectedness_inv:
  assumes "ua_inv st"
  shows "ua_inv (on_connectedness st p c)"
proof (cases "c = NotConnected \<and> ua_peers st p \<noteq> None")
  case False
  with assms show ?thesis by (auto simp: on_connectedness_def)
next
  case True
  then obtain ua where ua: "ua_peers st p = Some ua" by blast
  let ?st = "st\<lparr>ua_peers := (ua_peers st)(p := None)\<rparr>"
  from assms have fin: "finite (dom (ua_peers st))" and ex: "ua_exact (\<lambda>ua. card (agents st ua)) st"
    by (simp_all add: ua_inv_def)
  have eq: "on_connectedness st p c = drop_agent ?st ua"
    using True ua by (simp add: on_connectedness_def)
  from ex have "ua_exact (\<lambda>ua. card (agents st ua)) ?st" by (simp add: ua_exact_def)
  from drop_agent_exact [OF this, of ua] others_tracked [OF fin ua]
  have "ua_exact (others st p) (drop_agent ?st ua)" by simp
  moreover have "(\<lambda>x. card (agents (drop_agent ?st ua) x)) = others st p"
    by (rule agents_card_remove) simp
  ultimately show ?thesis using fin by (simp add: eq ua_inv_def)
qed

lemma ua_loop_inv: "ua_inv st \<Longrightarrow> ua_inv (ua_loop st evs)"
  by (induction st evs rule: ua_loop.induct) (simp_all add: on_identified_inv on_connectedness_inv)

lemma ua_empty_inv: "ua_inv ua_empty"
  by (simp add: ua_inv_def ua_exact_def ua_empty_def agents_def)

section \<open>Properties\<close>

text \<open>
  C31: the agent counts are exact.  After any sequence of identify, connectedness and ticker events,
  for every normalised agent the count (absent when zero) and the Prometheus gauge both equal
  the number of peers currently tracked with that agent.
\<close>

theorem agent_counts_exact:
  "ua_counts (TrackUserAgents i c evs) ua =
     (let n = card {p. ua_peers (TrackUserAgents i c evs) p = Some ua} in if n = 0 then None else Some (int n)) \<and>
   ua_gauge (TrackUserAgents i c evs) ua = int (card {p. ua_peers (TrackUserAgents i c evs) p = Some ua})"
proof -
  have "ua_inv (TrackUserAgents i c evs)"
    by (simp add: TrackUserAgents_def ua_loop_inv ua_empty_inv)
  then show ?thesis by (simp add: ua_inv_def ua_exact_def agents_def Let_def)
qed

text \<open>
  Normalisation is a projection.  Normalising a normalised agent changes nothing, so the label
  of a peer does not depend on how often its agent string was normalised.
\<close>

lemma normalizeUserAgent_idem: "normalizeUserAgent (normalizeUserAgent raw) = normalizeUserAgent raw"
proof (cases "raw = '''' \<or> \<not> snd (snd (str_cut ''/'' raw))")
  case True
  have "str_cut ''/'' ''unknown'' = (''unknown'', '''', False)"
    by (rule str_cut_single_absent) simp
  with True show ?thesis by (auto simp: normalizeUserAgent_def split: prod.splits)
next
  case False
  then obtain name version where cut: "str_cut ''/'' raw = (name, version, True)"
    by (cases "str_cut ''/'' raw") auto
  define pre where "pre = (if prefix ''v'' version then ''v'' else '''')"
  define ver where "ver = (if prefix ''v'' version then drop 1 version else version)"
  obtain major rest f where m: "str_cut ''.'' ver = (major, rest, f)" by (cases "str_cut ''.'' ver") auto
  have norm: "normalizeUserAgent raw = name @ ''/'' @ pre @ major"
    using False cut m by (auto simp: normalizeUserAgent_def pre_def ver_def Let_def split: if_splits)
  have slash: "CHR ''/'' \<notin> set name" using str_cut_single_before [OF cut] .
  have dot: "CHR ''.'' \<notin> set major" using str_cut_single_before [OF m] .
  have nov: "\<not> prefix ''v'' major" if "pre = ''''"
    using that str_cut_before_prefix [OF m] by (auto simp: pre_def ver_def split: if_splits)
  have "str_cut ''/'' (name @ ''/'' @ pre @ major) = (name, pre @ major, True)"
    using slash by (rule str_cut_single_append)
  then show ?thesis
    unfolding norm using dot nov
    by (auto simp: normalizeUserAgent_def Let_def str_cut_single_absent pre_def split: if_splits)
qed

end
