(* ===== verification/Rpc.thy ===== *)
theory Rpc
  imports User_Agent
begin

text \<open>
  \<^verbatim>\<open>rpc/rpc.go\<close>: the request handlers of the beacon-chain protocols, the status handshake, and the
  attestation-subnet bit vector.  The SSZ-snappy encoder with the encodings of the messages is outside the
  repository and an argument (\<open>rpc_lib\<close>): an encoding may fail, and decoding is a function of the bytes that
  arrive before the deadline.  A write to a stream succeeds or fails after some bytes.
\<close>

section \<open>Messages and protocols\<close>

record StatusV2 =
  ForkDigest :: bytes
  FinalizedRoot :: bytes
  FinalizedEpoch :: u64
  HeadRoot :: bytes
  HeadSlot :: u64
  EarliestAvailableSlot :: u64

datatype metadata =
    MetaDataV0 u64 bytes
  | MetaDataV1 u64 bytes bytes
  | MetaDataV2 u64 bytes bytes u64

record rpc_lib =
  rl_encStatus :: "StatusV2 \<Rightarrow> bytes option"
  rl_encSeq :: "u64 \<Rightarrow> bytes option"
  rl_encMeta :: "metadata \<Rightarrow> bytes option"
  rl_decStatus :: "bytes \<Rightarrow> StatusV2 option"
  rl_decSeq :: "bytes \<Rightarrow> u64 option"

definition statusProtocolV1 :: string where
  "statusProtocolV1 = ''/eth2/beacon_chain/req/status/1/ssz_snappy''"
definition statusProtocolV2 :: string where
  "statusProtocolV2 = ''/eth2/beacon_chain/req/status/2/ssz_snappy''"
definition pingProtocol :: string where
  "pingProtocol = ''/eth2/beacon_chain/req/ping/1/ssz_snappy''"
definition metadataProtocolV1 :: string where
  "metadataProtocolV1 = ''/eth2/beacon_chain/req/metadata/1/ssz_snappy''"
definition metadataProtocolV2 :: string where
  "metadataProtocolV2 = ''/eth2/beacon_chain/req/metadata/2/ssz_snappy''"
definition metadataProtocolV3 :: string where
  "metadataProtocolV3 = ''/eth2/beacon_chain/req/metadata/3/ssz_snappy''"
definition goodbyeProtocol :: string where
  "goodbyeProtocol = ''/eth2/beacon_chain/req/goodbye/1/ssz_snappy''"

definition responseCodeSuccess :: u8 where
  "responseCodeSuccess = 0"

lemmas protocol_defs = statusProtocolV1_def statusProtocolV2_def pingProtocol_def metadataProtocolV1_def
  metadataProtocolV2_def metadataProtocolV3_def goodbyeProtocol_def

section \<open>Writing\<close>

text \<open>A write that succeeds (\<open>None\<close>) or fails after \<open>k\<close> bytes: what is on the stream, and whether it succeeded.\<close>

definition write_bytes :: "nat option \<Rightarrow> bytes \<Rightarrow> bytes \<times> bool" where
  "write_bytes f b = (case f of None \<Rightarrow> (b, True) | Some k \<Rightarrow> (take k b, False))"

text \<open>\<^verbatim>\<open>EncodeWithMaxLength\<close>: the encoding, which may fail, then the write.\<close>

definition write_encoded :: "nat option \<Rightarrow> bytes option \<Rightarrow> bytes \<times> bool" where
  "write_encoded f enc = (case enc of None \<Rightarrow> ([], False) | Some b \<Rightarrow> write_bytes f b)"

lemma write_ok [simp]: "write_bytes None b = (b, True)" "write_encoded None (Some b) = (b, True)" "write_encoded f None = ([], False)"
  by (simp_all add: write_bytes_def write_encoded_def)

lemma write_encoded_True: "write_encoded f enc = (b, True) \<longleftrightarrow> f = None \<and> enc = Some b"
  by (auto simp: write_encoded_def write_bytes_def split: option.splits)

section \<open>Handlers\<close>

text \<open>
  A handler gets the request bytes and returns what it puts on the stream.  The code is written first, then
  the message; \<open>f1\<close> and \<open>f2\<close> are the outcomes of the two writes.
\<close>

definition write_response :: "nat option \<Rightarrow> nat option \<Rightarrow> bytes option \<Rightarrow> bytes" where
  "write_response f1 f2 enc =
     (case write_bytes f1 [responseCodeSuccess] of
        (b, False) \<Rightarrow> b
      | (b, True) \<Rightarrow> b @ fst (write_encoded f2 enc))"

definition handleStatus :: "rpc_lib \<Rightarrow> bytes \<Rightarrow> nat option \<Rightarrow> nat option \<Rightarrow> StatusV2 \<Rightarrow> bytes" where
  "handleStatus lib req f1 f2 ourStatus =
     (case rl_decStatus lib req of
        None \<Rightarrow> []
      | Some peerStatus \<Rightarrow> write_response f1 f2 (rl_encStatus lib ourStatus))"

definition handlePing :: "rpc_lib \<Rightarrow> bytes \<Rightarrow> nat option \<Rightarrow> nat option \<Rightarrow> bytes" where
  "handlePing lib req f1 f2 =
     (case rl_decSeq lib req of None \<Rightarrow> [] | Some ping \<Rightarrow> write_response f1 f2 (rl_encSeq lib 0))"

definition handleMetadata :: "rpc_lib \<Rightarrow> string \<Rightarrow> bytes \<Rightarrow> nat option \<Rightarrow> nat option \<Rightarrow> bytes" where
  "handleMetadata lib proto attnets f1 f2 =
     (let md = (if proto = metadataProtocolV3 then MetaDataV2 0 attnets [0] 4
                else if proto = metadataProtocolV1 then MetaDataV0 0 attnets
                else MetaDataV1 0 attnets [0])
      in write_response f1 f2 (rl_encMeta lib md))"

definition goodbyeReasons :: "(u64 \<times> string) list" where
  "goodbyeReasons =
     [(1, ''client shutdown''), (2, ''irrelevant network''), (3, ''fault/error''),
      (128, ''unable to verify network''), (129, ''too many peers''),
      (250, ''peer score too low''), (251, ''client banned this node'')]"

text \<open>The line \<^verbatim>\<open>handleGoodbye\<close> logs: peer, reason and code.\<close>

definition handleGoodbye :: "rpc_lib \<Rightarrow> (peer_id \<Rightarrow> string) \<Rightarrow> peer_id \<Rightarrow> bytes \<Rightarrow> (string \<times> string \<times> u64) option res" where
  "handleGoodbye lib id_str p req =
     (case rl_decSeq lib req of
        None \<Rightarrow> Inr None
      | Some code \<Rightarrow>
         (let msg = (case map_of goodbyeReasons code of Some m \<Rightarrow> m | None \<Rightarrow> '''');
              msg = (if msg = '''' then ''unknown'' else msg)
          in res_bind (peerShort id_str p) (\<lambda>ps. Inr (Some (ps, msg, code)))))"

text \<open>\<^verbatim>\<open>RegisterHandlers\<close>: the handler set for each protocol; a later \<^verbatim>\<open>SetStreamHandler\<close> of the same protocol replaces.\<close>

datatype handler = HStatus | HPing | HMetadata | HGoodbye

definition RegisterHandlers :: "(string \<rightharpoonup> handler) \<Rightarrow> (string \<rightharpoonup> handler)" where
  "RegisterHandlers h = h(statusProtocolV1 \<mapsto> HStatus, statusProtocolV2 \<mapsto> HStatus, pingProtocol \<mapsto> HPing,
     metadataProtocolV1 \<mapsto> HMetadata, metadataProtocolV2 \<mapsto> HMetadata, metadataProtocolV3 \<mapsto> HMetadata,
     goodbyeProtocol \<mapsto> HGoodbye)"

section \<open>The status handshake\<close>

text \<open>How an outgoing handshake ends; the constructors are the exits of \<^verbatim>\<open>sendStatus\<close>.\<close>

datatype send_outcome =
    OpenFailed
  | EncodeFailed
  | CloseWriteFailed
  | NoResponseCode
  | NonSuccess u8
  | BadResponse
  | Handshake u64

text \<open>
  What is sent, and how it ends: whether the stream opens, the outcome of the write, whether the write side
  closes, and the bytes that come back for the bytes sent.
\<close>

definition sendStatus ::
  "rpc_lib \<Rightarrow> bool \<Rightarrow> nat option \<Rightarrow> bool \<Rightarrow> (bytes \<Rightarrow> bytes) \<Rightarrow> StatusV2 \<Rightarrow> bytes \<times> send_outcome" where
  "sendStatus lib opens f closes peer ourStatus =
     (if \<not> opens then ([], OpenFailed)
      else case write_encoded f (rl_encStatus lib ourStatus) of
        (sent, False) \<Rightarrow> (sent, EncodeFailed)
      | (sent, True) \<Rightarrow>
          if \<not> closes then (sent, CloseWriteFailed)
          else (case peer sent of
                  [] \<Rightarrow> (sent, NoResponseCode)
                | code # rest \<Rightarrow>
                    if code \<noteq> responseCodeSuccess then (sent, NonSuccess code)
                    else (case rl_decStatus lib rest of
                            None \<Rightarrow> (sent, BadResponse)
                          | Some peerStatus \<Rightarrow> (sent, Handshake (HeadSlot peerStatus)))))"

section \<open>Our own data\<close>

definition MakeStatusProvider :: "(time \<Rightarrow> time \<Rightarrow> u64) \<Rightarrow> bytes \<Rightarrow> time \<Rightarrow> time \<Rightarrow> StatusV2" where
  "MakeStatusProvider current_slot forkDigest genesis now =
     (let cs = current_slot genesis now;
          headSlot = (if cs > 0 then cs - 1 else 0)
      in \<lparr>ForkDigest = forkDigest, FinalizedRoot = replicate 32 0, FinalizedEpoch = 0,
          HeadRoot = replicate 32 0, HeadSlot = headSlot, EarliestAvailableSlot = 0\<rparr>)"

definition set_subnet :: "bytes \<Rightarrow> u64 \<Rightarrow> bytes" where
  "set_subnet bv sid =
     (if sid < 64
      then bv[unat (sid div 8) := bv ! unat (sid div 8) OR push_bit (unat (sid mod 8)) 1]
      else bv)"

definition MakeAttnetsBytes :: "u64 list \<Rightarrow> bytes" where
  "MakeAttnetsBytes subnetIDs = foldl set_subnet (replicate 8 0) subnetIDs"

definition ForkDigestFromStatus :: "StatusV2 \<Rightarrow> string" where
  "ForkDigestFromStatus status =
     (if length (ForkDigest status) < 4 then ''unknown'' else EncodeToString (take 4 (ForkDigest status)))"

section \<open>Lemmas on the bit vector\<close>

lemma length_set_subnet [simp]: "length (set_subnet bv sid) = length bv"
  by (simp add: set_subnet_def)

lemma length_foldl_set_subnet [simp]: "length (foldl set_subnet bv ids) = length bv"
  by (induction ids arbitrary: bv) simp_all

lemma bit_set_subnet:
  assumes "j < 8" and "b < 8" and "length bv = 8"
  shows "bit (set_subnet bv sid ! j) b \<longleftrightarrow> bit (bv ! j) b \<or> unat sid = 8 * j + b"
proof (cases "sid < 64")
  case True
  then have "unat sid < 64" by (simp add: word_less_nat_alt)
  have "unat sid = 8 * j + b \<longleftrightarrow> unat sid div 8 = j \<and> unat sid mod 8 = b" using assms by auto
  with True assms \<open>unat sid < 64\<close> show ?thesis
    by (auto simp: set_subnet_def unat_div unat_mod nth_list_update bit_or_iff bit_exp_iff)
next
  case False
  then have "\<not> unat sid < 64" by (simp add: word_less_nat_alt)
  with assms False show ?thesis by (auto simp: set_subnet_def)
qed

lemma bit_MakeAttnetsBytes:
  assumes "j < 8" and "b < 8"
  shows "bit (MakeAttnetsBytes ids ! j) b \<longleftrightarrow> 8 * j + b \<in> unat ` set ids"
proof -
  have "bit (foldl set_subnet bv ids ! j) b \<longleftrightarrow> bit (bv ! j) b \<or> 8 * j + b \<in> unat ` set ids"
    if "length bv = 8" for bv
    using that by (induction ids arbitrary: bv) (auto simp: bit_set_subnet [OF assms])
  from this [of "replicate 8 0"] assms show ?thesis by (simp add: MakeAttnetsBytes_def)
qed

section \<open>Properties\<close>

text \<open>
  Every metadata request is answered in the version of its protocol.  The three metadata
  protocols are registered, none of the seven registrations overwrites another, and when the
  writes succeed the answer is the success code followed by the metadata of the requested version
  carrying our attestation subnets.
\<close>

lemma metadata_answers_match_version:
  assumes "\<And>md. rl_encMeta lib md = Some (enc md)"
  shows "map (RegisterHandlers h) [metadataProtocolV1, metadataProtocolV2, metadataProtocolV3] =
     [Some HMetadata, Some HMetadata, Some HMetadata] \<and>
   map (RegisterHandlers h) [statusProtocolV1, statusProtocolV2, pingProtocol, goodbyeProtocol] =
     [Some HStatus, Some HStatus, Some HPing, Some HGoodbye] \<and>
   handleMetadata lib metadataProtocolV1 attnets None None = 0 # enc (MetaDataV0 0 attnets) \<and>
   handleMetadata lib metadataProtocolV2 attnets None None = 0 # enc (MetaDataV1 0 attnets [0]) \<and>
   handleMetadata lib metadataProtocolV3 attnets None None = 0 # enc (MetaDataV2 0 attnets [0] 4)"
  by (simp add: RegisterHandlers_def handleMetadata_def write_response_def responseCodeSuccess_def protocol_defs assms)

lemma MakeStatusProvider_head:
  "unat (HeadSlot (MakeStatusProvider current_slot fd genesis now)) = unat (current_slot genesis now) - 1"
proof -
  have "unat (current_slot genesis now - 1) = unat (current_slot genesis now) - 1" if "0 < current_slot genesis now"
    using that by (metis unat_minus_one word_neq_0_conv)
  then show ?thesis by (auto simp: MakeStatusProvider_def Let_def word_gt_0)
qed

text \<open>
  The status we advertise.  Its fork digest is the one the provider was made with, so reading
  the digest back gives its hex form; its roots have the 32 bytes SSZ requires; and its head slot is
  the slot before the current one, without wrapping around at slot zero.
\<close>

lemma status_advertises_digest_and_head:
  assumes "length forkDigest = 4" and "status = MakeStatusProvider current_slot forkDigest genesis now"
  shows "ForkDigestFromStatus status = EncodeToString forkDigest \<and>
     hex_Decode (ForkDigestFromStatus status) = Inr forkDigest \<and>
     length (FinalizedRoot status) = 32 \<and> length (HeadRoot status) = 32 \<and>
     unat (HeadSlot status) = unat (current_slot genesis now) - 1"
  using assms MakeStatusProvider_head [of current_slot forkDigest genesis now]
  by (auto simp: MakeStatusProvider_def ForkDigestFromStatus_def Let_def)

lemma status_advertises_digest_and_head_example:
  "ForkDigestFromStatus (MakeStatusProvider (\<lambda>_ _. 0) [0x6a, 0x95, 0xa1, 0xa9] 0 0) = ''6a95a1a9'' \<and>
   unat (HeadSlot (MakeStatusProvider (\<lambda>_ _. 0) [0x6a, 0x95, 0xa1, 0xa9] 0 0)) = 0"
proof -
  have "ForkDigestFromStatus (MakeStatusProvider (\<lambda>_ _. 0) [0x6a, 0x95, 0xa1, 0xa9] 0 0) = EncodeToString [0x6a, 0x95, 0xa1, 0xa9] \<and>
     hex_Decode (ForkDigestFromStatus (MakeStatusProvider (\<lambda>_ _. 0) [0x6a, 0x95, 0xa1, 0xa9] 0 0)) = Inr [0x6a, 0x95, 0xa1, 0xa9] \<and>
     length (FinalizedRoot (MakeStatusProvider (\<lambda>_ _. 0) [0x6a, 0x95, 0xa1, 0xa9] 0 0)) = 32 \<and>
     length (HeadRoot (MakeStatusProvider (\<lambda>_ _. 0) [0x6a, 0x95, 0xa1, 0xa9] 0 0)) = 32 \<and>
     unat (HeadSlot (MakeStatusProvider (\<lambda>_ _. 0) [0x6a, 0x95, 0xa1, 0xa9] 0 0)) = unat (0::u64) - 1"
    by (rule status_advertises_digest_and_head [OF _ refl]) simp
  then show ?thesis by (simp add: EncodeToString_def hex_digit_def)
qed

text \<open>
  A handshake completes exactly when every step does.  The outgoing handshake is complete iff
  the stream opens, our status is encoded and written, the write side closes, the success code comes back
  and a status is decoded after it.
\<close>

lemma sendStatus_handshake_iff:
  "snd (sendStatus lib opens f closes peer our) = Handshake hs \<longleftrightarrow>
     opens \<and> closes \<and> f = None \<and>
     (\<exists>sent rest st. rl_encStatus lib our = Some sent \<and> peer sent = 0 # rest \<and> rl_decStatus lib rest = Some st \<and> hs = HeadSlot st)"
proof (cases "write_encoded f (rl_encStatus lib our)")
  case (Pair sent ok)
  show ?thesis
  proof (cases ok)
    case True
    with Pair have "f = None" "rl_encStatus lib our = Some sent" by (simp_all add: write_encoded_True)
    then show ?thesis by (auto simp: sendStatus_def responseCodeSuccess_def split: list.splits option.splits)
  next
    case False
    with Pair have "\<not> (f = None \<and> rl_encStatus lib our = Some b)" for b
      using write_encoded_True [of f "rl_encStatus lib our" b] by auto
    with Pair False show ?thesis by (auto simp: sendStatus_def)
  qed
qed

text \<open>
  The version-1 status protocol is answered in version 2.  The handler registered for the two
  status protocols is the same one, and a request it can decode is answered with the version-2
  message whatever protocol the stream was opened with; nothing tries the version-1 message.
\<close>

lemma status_v1_answered_as_v2:
  assumes "rl_encStatus lib our = Some b"
  shows "RegisterHandlers h statusProtocolV1 = RegisterHandlers h statusProtocolV2 \<and>
   handleStatus lib req None None our = (if rl_decStatus lib req = None then [] else 0 # b)"
  using assms by (auto simp: RegisterHandlers_def handleStatus_def write_response_def responseCodeSuccess_def protocol_defs)

end
