(* ===== verification/Net_IP.thy ===== *)
theory Net_IP
  imports Go_Prelude
begin

text \<open>
  The part of Go's \<^verbatim>\<open>net\<close> package the discovery code uses: \<^verbatim>\<open>net.IP\<close> as its bytes, \<^verbatim>\<open>To4\<close>, \<^verbatim>\<open>To16\<close> and
  \<^verbatim>\<open>String\<close> (dotted decimal, or hexadecimal groups with the first longest run of at least two zero
  groups written \<^verbatim>\<open>::\<close>).
\<close>

definition v4_in_v6_prefix :: bytes where
  "v4_in_v6_prefix = [0, 0, 0, 0, 0, 0, 0, 0, 0, 0, 0xff, 0xff]"

definition ip_To4 :: "bytes \<Rightarrow> bytes option" where
  "ip_To4 ip =
     (if length ip = 4 then Some ip
      else if length ip = 16 \<and> take 12 ip = v4_in_v6_prefix then Some (drop 12 ip)
      else None)"

definition ip_To16 :: "bytes \<Rightarrow> bytes option" where
  "ip_To16 ip =
     (if length ip = 4 then Some (v4_in_v6_prefix @ ip) else if length ip = 16 then Some ip else None)"

fun join_strings :: "string \<Rightarrow> string list \<Rightarrow> string" where
  "join_strings sep [] = ''''"
| "join_strings sep [s] = s"
| "join_strings sep (s # ss) = s @ sep @ join_strings sep ss"

fun hex_nat :: "nat \<Rightarrow> string" where
  "hex_nat n = (if n < 16 then [hex_digit n] else hex_nat (n div 16) @ [hex_digit (n mod 16)])"

declare hex_nat.simps [simp del]

fun v6_groups :: "bytes \<Rightarrow> nat list" where
  "v6_groups (a # b # bs) = (256 * unat a + unat b) # v6_groups bs"
| "v6_groups _ = []"

definition zero_run :: "nat list \<Rightarrow> nat \<Rightarrow> nat" where
  "zero_run gs i = length (takeWhile (\<lambda>g. g = 0) (drop i gs))"

definition best_zero_run :: "nat list \<Rightarrow> (nat \<times> nat) option" where
  "best_zero_run gs = fold (\<lambda>i best.
       let l = zero_run gs i in
       if 2 \<le> l \<and> (case best of None \<Rightarrow> True | Some (_, l') \<Rightarrow> l' < l) then Some (i, l) else best)
     [0..<length gs] None"

definition v6_String :: "bytes \<Rightarrow> string" where
  "v6_String ip =
     (let gs = v6_groups ip in
      case best_zero_run gs of
        None \<Rightarrow> join_strings '':'' (map hex_nat gs)
      | Some (i, l) \<Rightarrow>
          join_strings '':'' (map hex_nat (take i gs)) @ ''::'' @ join_strings '':'' (map hex_nat (drop (i + l) gs)))"

definition ip_String :: "bytes \<Rightarrow> string" where
  "ip_String ip =
     (if length ip = 0 then ''<nil>''
      else (case ip_To4 ip of
              Some p4 \<Rightarrow> join_strings ''.'' (map (\<lambda>b. dec_nat (unat b)) p4)
            | None \<Rightarrow> if length ip = 16 then v6_String ip else ''?'' @ EncodeToString ip))"

section \<open>The characters of an address\<close>

lemma set_join_strings: "set (join_strings sep ss) \<subseteq> set sep \<union> \<Union> (set ` set ss)"
  by (induction sep ss rule: join_strings.induct) auto

lemma hex_digit_not_q: "d < 16 \<Longrightarrow> hex_digit d \<noteq> CHR ''q''"
  by (drule lt16_cases) (auto simp: hex_digit_def)

lemma hex_nat_no_q: "CHR ''q'' \<notin> set (hex_nat n)"
proof (induction n rule: hex_nat.induct)
  case (1 n)
  then show ?case
    by (subst hex_nat.simps) (auto simp: eq_commute [of "CHR ''q''"] hex_digit_not_q)
qed

lemma dec_nat_no_q: "CHR ''q'' \<notin> set (dec_nat n)"
  using dec_nat_digits [of "CHR ''q''" n] by (auto simp: is_digit_def)

lemma EncodeToString_no_q: "CHR ''q'' \<notin> set (EncodeToString bs)"
proof -
  have "hex_digit (unat b div 16) \<noteq> CHR ''q''" "hex_digit (unat b mod 16) \<noteq> CHR ''q''" for b :: u8
  proof -
    have "unat b < 2 ^ LENGTH(8)" by (rule unsigned_less)
    then show "hex_digit (unat b div 16) \<noteq> CHR ''q''" by (intro hex_digit_not_q) simp
    show "hex_digit (unat b mod 16) \<noteq> CHR ''q''" by (intro hex_digit_not_q) simp
  qed
  then show ?thesis by (auto simp: EncodeToString_def eq_commute [of "CHR ''q''"])
qed

lemma ip_String_no_q: "CHR ''q'' \<notin> set (ip_String ip)"
proof -
  have j: "CHR ''q'' \<notin> set (join_strings sep ss)"
    if "CHR ''q'' \<notin> set sep" and "\<And>s. s \<in> set ss \<Longrightarrow> CHR ''q'' \<notin> set s" for sep ss
    using set_join_strings [of sep ss] that by blast
  have "CHR ''q'' \<notin> set (join_strings '':'' (map hex_nat gs))" for gs
    by (rule j) (auto simp: hex_nat_no_q)
  then have "CHR ''q'' \<notin> set (v6_String ip)"
    by (auto simp: v6_String_def Let_def split: option.splits)
  moreover have "CHR ''q'' \<notin> set (join_strings ''.'' (map (\<lambda>b. dec_nat (unat b)) p4))" for p4 :: bytes
    by (rule j) (auto simp: dec_nat_no_q)
  ultimately show ?thesis
    by (auto simp: ip_String_def EncodeToString_no_q split: option.splits)
qed

end
