(* ===== verification/Discovery.thy ===== *)
theory Discovery
  imports Peer_Finder Rpc Net_IP
begin

text \<open>
  \<^verbatim>\<open>discovery/discovery.go\<close>: which discovered nodes become candidates, and the crawl file.  A node
  record (go-ethereum's \<^verbatim>\<open>enode.Node\<close>) is what its accessors return; the key and multiaddress
  libraries are an argument (\<open>lib\<close>).  The router is an argument too, as the interface
  \<^verbatim>\<open>PeerRouter\<close> has it: its two operations and its state.
\<close>

section \<open>Nodes\<close>

text \<open>The \<^verbatim>\<open>eth2\<close>, \<^verbatim>\<open>attnets\<close> and \<^verbatim>\<open>quic\<close> entries are \<open>None\<close> when loading them fails.\<close>

record enode =
  en_eth2 :: "bytes option"
  en_attnets :: "bytes option"
  en_Pubkey :: "bytes option"
  en_IP :: "bytes option"
  en_quic :: "nat option"
  en_TCP :: nat
  en_String :: string

record enode_lib =
  el_UnmarshalForkID :: "bytes \<Rightarrow> bytes option"
  el_ConvertPubkey :: "bytes \<Rightarrow> bytes option"
  el_IDFromPublicKey :: "bytes \<Rightarrow> peer_id option"
  el_IDString :: "peer_id \<Rightarrow> string"
  el_NewMultiaddr :: "string \<Rightarrow> string option"
  el_AddrInfos :: "string list \<Rightarrow> AddrInfo list option"

datatype enr_error =
    NoPubkey
  | BadPubkey
  | BadPeerID
  | BadQUICAddr
  | BadTCPAddr
  | BadPeerInfo
  | WrongInfoCount nat

definition matchesForkDigest :: "enode_lib \<Rightarrow> enode \<Rightarrow> bytes \<Rightarrow> bool" where
  "matchesForkDigest lib n forkDigest =
     (case en_eth2 n of
        None \<Rightarrow> False
      | Some eth2Data \<Rightarrow>
          if length eth2Data < 4 then False
          else (case el_UnmarshalForkID lib eth2Data of
                  None \<Rightarrow> False
                | Some cur \<Rightarrow>
                    if length cur < 4 then False
                    else cur ! 0 = forkDigest ! 0 \<and> cur ! 1 = forkDigest ! 1 \<and>
                         cur ! 2 = forkDigest ! 2 \<and> cur ! 3 = forkDigest ! 3))"

fun overlap_loop :: "bytes \<Rightarrow> u64 list \<Rightarrow> bool" where
  "overlap_loop attnets [] = False"
| "overlap_loop attnets (sid # ids) =
     (if sid < 64 \<and> length attnets > unat (sid div 8) \<and>
         attnets ! unat (sid div 8) AND push_bit (unat (sid mod 8)) 1 \<noteq> 0
      then True else overlap_loop attnets ids)"

definition hasSubnetOverlap :: "enode \<Rightarrow> u64 list \<Rightarrow> bool" where
  "hasSubnetOverlap n subnetIDs =
     (case en_attnets n of None \<Rightarrow> False | Some attnets \<Rightarrow> overlap_loop attnets subnetIDs)"

definition quic_addr :: "string \<Rightarrow> bytes \<Rightarrow> nat \<Rightarrow> string \<Rightarrow> string" where
  "quic_addr ipType ip qp ids =
     ''/'' @ ipType @ ''/'' @ ip_String ip @ ''/udp/'' @ dec_nat qp @ ''/quic-v1/p2p/'' @ ids"

definition tcp_addr :: "string \<Rightarrow> bytes \<Rightarrow> nat \<Rightarrow> string \<Rightarrow> string" where
  "tcp_addr ipType ip port ids =
     ''/'' @ ipType @ ''/'' @ ip_String ip @ ''/tcp/'' @ dec_nat port @ ''/p2p/'' @ ids"

definition ip_type :: "bytes \<Rightarrow> string" where
  "ip_type ip = (if ip_To4 ip = None \<and> ip_To16 ip \<noteq> None then ''ip6'' else ''ip4'')"

text \<open>Nothing is built for a missing or zero port; otherwise the multiaddress, or the error.\<close>

definition port_addr :: "enode_lib \<Rightarrow> enr_error \<Rightarrow> (nat \<Rightarrow> string) \<Rightarrow> nat option \<Rightarrow> enr_error + string list" where
  "port_addr lib err fmt port =
     (case port of
        None \<Rightarrow> Inr []
      | Some p \<Rightarrow>
          if p = 0 then Inr []
          else (case el_NewMultiaddr lib (fmt p) of None \<Rightarrow> Inl err | Some addr \<Rightarrow> Inr [addr]))"

definition retrieveMultiAddrsFromNode :: "enode_lib \<Rightarrow> enode \<Rightarrow> enr_error + string list" where
  "retrieveMultiAddrsFromNode lib n =
     (case en_Pubkey n of
        None \<Rightarrow> Inl NoPubkey
      | Some pubkey \<Rightarrow>
      (case el_ConvertPubkey lib pubkey of
        None \<Rightarrow> Inl BadPubkey
      | Some assertedKey \<Rightarrow>
      (case el_IDFromPublicKey lib assertedKey of
        None \<Rightarrow> Inl BadPeerID
      | Some pid \<Rightarrow>
      (case en_IP n of
        None \<Rightarrow> Inr []
      | Some ip \<Rightarrow>
         (let ipType = ip_type ip;
              ids = el_IDString lib pid
          in case port_addr lib BadQUICAddr (\<lambda>qp. quic_addr ipType ip qp ids) (en_quic n) of
               Inl e \<Rightarrow> Inl e
             | Inr quic \<Rightarrow>
                (case port_addr lib BadTCPAddr (\<lambda>port. tcp_addr ipType ip port ids) (Some (en_TCP n)) of
                   Inl e \<Rightarrow> Inl e
                 | Inr tcp \<Rightarrow> Inr (quic @ tcp)))))))"

definition enodeToAddrInfo :: "enode_lib \<Rightarrow> enode \<Rightarrow> enr_error + AddrInfo option" where
  "enodeToAddrInfo lib n =
     (case retrieveMultiAddrsFromNode lib n of
        Inl e \<Rightarrow> Inl e
      | Inr multiaddrs \<Rightarrow>
          if length multiaddrs = 0 then Inr None
          else (case el_AddrInfos lib multiaddrs of
                  None \<Rightarrow> Inl BadPeerInfo
                | Some infos \<Rightarrow>
                    if length infos \<noteq> 1 then Inl (WrongInfoCount (length infos))
                    else Inr (Some (infos ! 0))))"

fun has_quic_loop :: "string list \<Rightarrow> bool" where
  "has_quic_loop [] = False"
| "has_quic_loop (addr # addrs) = (if str_contains addr ''/quic-v1'' then True else has_quic_loop addrs)"

definition hasQUICAddr :: "AddrInfo \<Rightarrow> bool" where
  "hasQUICAddr ai = has_quic_loop (ai_addrs ai)"

section \<open>The crawl file\<close>

text \<open>The lines written to the file; every \<^verbatim>\<open>WriteConnected\<close> flushes, so buffered and written agree.\<close>

record crawlFileWriter =
  cw_seen :: "peer_id set"
  cw_pending :: "peer_id \<rightharpoonup> string"
  cw_lines :: "string list"

definition newCrawlFileWriter :: "string list \<Rightarrow> crawlFileWriter" where
  "newCrawlFileWriter old = \<lparr>cw_seen = {}, cw_pending = Map.empty, cw_lines = old\<rparr>"

definition HasPeer :: "crawlFileWriter \<Rightarrow> peer_id \<Rightarrow> bool" where
  "HasPeer c p = (if p \<in> cw_seen c then True else cw_pending c p \<noteq> None)"

definition RegisterENR :: "crawlFileWriter \<Rightarrow> peer_id \<Rightarrow> string \<Rightarrow> crawlFileWriter" where
  "RegisterENR c p enrStr = c\<lparr>cw_pending := (cw_pending c)(p \<mapsto> enrStr)\<rparr>"

definition WriteConnected :: "crawlFileWriter \<Rightarrow> peer_id \<Rightarrow> crawlFileWriter" where
  "WriteConnected c p =
     (case cw_pending c p of
        None \<Rightarrow> c
      | Some enrStr \<Rightarrow>
         (let c = c\<lparr>cw_pending := (cw_pending c)(p := None)\<rparr>
          in if p \<in> cw_seen c then c
             else c\<lparr>cw_seen := insert p (cw_seen c), cw_lines := cw_lines c @ [enrStr]\<rparr>))"

text \<open>\<^verbatim>\<open>Close\<close> returns the outcome of closing the file; since every write is flushed it leaves nothing behind.\<close>

definition Close :: "bool \<Rightarrow> crawlFileWriter \<Rightarrow> bool \<times> crawlFileWriter" where
  "Close file_closes c = (file_closes, c)"

section \<open>The discovery loop\<close>

record disc_config =
  dc_DiscPort :: u64
  dc_DiscV4Port :: u64
  dc_ForkDigest :: bytes
  dc_SubnetIDs :: "u64 list"
  dc_AttnetsBytes :: bytes
  dc_QuicOnly :: bool
  dc_ActiveCrawl :: bool
  dc_CrawlFile :: string

text \<open>The state the loop works on: the router, the crawl writer if there is one, and the counter.\<close>

record 'r disc_state =
  ds_router :: 'r
  ds_writer :: "crawlFileWriter option"
  ds_found :: nat

text \<open>From the address check on, the same for the loop and for the bootstrap file: the candidate of a node.\<close>

definition node_candidate :: "enode_lib \<Rightarrow> bool \<Rightarrow> enode \<Rightarrow> AddrInfo option" where
  "node_candidate lib quicOnly n =
     (case enodeToAddrInfo lib n of
        Inl _ \<Rightarrow> None
      | Inr None \<Rightarrow> None
      | Inr (Some ai) \<Rightarrow> if quicOnly \<and> \<not> hasQUICAddr ai then None else Some ai)"

definition on_node ::
  "('r \<Rightarrow> AddrInfo \<Rightarrow> 'r res) \<Rightarrow> ('r \<Rightarrow> peer_id \<Rightarrow> bool) \<Rightarrow> enode_lib \<Rightarrow> disc_config \<Rightarrow> 'r disc_state \<Rightarrow> enode \<Rightarrow> 'r disc_state res" where
  "on_node route conn_any lib cfg st n =
     (let st = st\<lparr>ds_found := ds_found st + 1\<rparr> in
      if dc_CrawlFile cfg = '''' \<and> \<not> hasSubnetOverlap n (dc_SubnetIDs cfg) then Inr st
      else (case node_candidate lib (dc_QuicOnly cfg) n of
              None \<Rightarrow> Inr st
            | Some ai \<Rightarrow>
                if conn_any (ds_router st) (ai_id ai) then Inr st
                else
                  let send = (\<lambda>st. res_bind (route (ds_router st) ai) (\<lambda>r. Inr (st\<lparr>ds_router := r\<rparr>))) in
                  case ds_writer st of
                    None \<Rightarrow> send st
                  | Some w \<Rightarrow>
                      if HasPeer w (ai_id ai) then Inr st
                      else send (st\<lparr>ds_writer := Some (RegisterENR w (ai_id ai) (en_String n))\<rparr>)))"

text \<open>
  One turn of the loop: the context is done, the iterator is exhausted, or it delivers a node.  The
  iterator is \<^verbatim>\<open>enode.Filter\<close> over the random nodes with \<^verbatim>\<open>matchesForkDigest\<close>: it delivers the nodes
  that pass.
\<close>

datatype disc_in = DiscCtxDone | DiscExhausted | DiscNode enode

definition fork_filter :: "enode_lib \<Rightarrow> disc_config \<Rightarrow> disc_in list \<Rightarrow> disc_in list" where
  "fork_filter lib cfg evs =
     filter (\<lambda>ev. case ev of DiscNode n \<Rightarrow> matchesForkDigest lib n (dc_ForkDigest cfg) | _ \<Rightarrow> True) evs"

fun discoverPeers ::
  "('r \<Rightarrow> AddrInfo \<Rightarrow> 'r res) \<Rightarrow> ('r \<Rightarrow> peer_id \<Rightarrow> bool) \<Rightarrow> enode_lib \<Rightarrow> disc_config \<Rightarrow> 'r disc_state \<Rightarrow> disc_in list \<Rightarrow> 'r disc_state res" where
  "discoverPeers route conn_any lib cfg st [] = Inr st"
| "discoverPeers route conn_any lib cfg st (DiscCtxDone # evs) = Inr st"
| "discoverPeers route conn_any lib cfg st (DiscExhausted # evs) = Inr st"
| "discoverPeers route conn_any lib cfg st (DiscNode n # evs) =
     res_bind (on_node route conn_any lib cfg st n) (\<lambda>st'. discoverPeers route conn_any lib cfg st' evs)"

section \<open>The bootstrap file\<close>

text \<open>
  \<^verbatim>\<open>bufio.Scanner\<close>: the lines of a text without their line ends; a line of 64 KiB or more ends the scan.
  \<open>str_TrimSpace\<close> is \<^verbatim>\<open>strings.TrimSpace\<close> on ASCII text, which node records are.
\<close>

definition drop_cr :: "string \<Rightarrow> string" where
  "drop_cr s = (if s \<noteq> [] \<and> last s = CHR 0x0D then butlast s else s)"

function scan_lines :: "string \<Rightarrow> string list" where
  "scan_lines s =
     (if s = [] then []
      else let line = takeWhile (\<lambda>c. c \<noteq> CHR 0x0A) s;
               rest = drop 1 (dropWhile (\<lambda>c. c \<noteq> CHR 0x0A) s)
           in if length line \<ge> 65536 then [] else drop_cr line # scan_lines rest)"
  by pat_completeness auto
termination
proof (relation "measure length")
  fix s line rest
  assume "s \<noteq> ([]::string)" and "rest = drop 1 (dropWhile (\<lambda>c. c \<noteq> CHR 0x0A) s)"
  moreover have "length (dropWhile (\<lambda>c. c \<noteq> CHR 0x0A) s) \<le> length s" by (rule length_dropWhile_le)
  ultimately show "(rest, s) \<in> measure length" by (cases s) auto
qed simp

declare scan_lines.simps [simp del]

definition is_space :: "char \<Rightarrow> bool" where
  "is_space c \<longleftrightarrow> c \<in> {CHR 0x09, CHR 0x0A, CHR 0x0B, CHR 0x0C, CHR 0x0D, CHR '' ''}"

definition str_TrimSpace :: "string \<Rightarrow> string" where
  "str_TrimSpace s = rev (dropWhile is_space (rev (dropWhile is_space s)))"

definition bootstrap_lines :: "string \<Rightarrow> string list" where
  "bootstrap_lines text = filter (\<lambda>l. l \<noteq> '''') (map str_TrimSpace (scan_lines text))"

text \<open>
  \<open>ctx_err i\<close> tells whether the context is done at the start of iteration \<open>i\<close>; \<open>parse\<close> is \<^verbatim>\<open>enode.Parse\<close>
  and \<open>request\<close> the listener's \<^verbatim>\<open>RequestENR\<close>.
\<close>

fun bootstrap_loop ::
  "('r \<Rightarrow> AddrInfo \<Rightarrow> 'r res) \<Rightarrow> ('r \<Rightarrow> peer_id \<Rightarrow> bool) \<Rightarrow> enode_lib \<Rightarrow> (string \<Rightarrow> enode option) \<Rightarrow> (enode \<Rightarrow> enode option) \<Rightarrow>
   bytes \<Rightarrow> u64 list \<Rightarrow> bool \<Rightarrow> (nat \<Rightarrow> bool) \<Rightarrow> nat \<Rightarrow> 'r \<Rightarrow> string list \<Rightarrow> 'r res" where
  "bootstrap_loop route conn_any lib parse request forkDigest subnetIDs quicOnly ctx_err i r [] = Inr r"
| "bootstrap_loop route conn_any lib parse request forkDigest subnetIDs quicOnly ctx_err i r (line # ls) =
     (if ctx_err i then Inr r
      else
        let next = (\<lambda>r. bootstrap_loop route conn_any lib parse request forkDigest subnetIDs quicOnly ctx_err (i + 1) r ls) in
        case parse line of
          None \<Rightarrow> next r
        | Some n \<Rightarrow>
           (let fresh = (case request n of None \<Rightarrow> n | Some n' \<Rightarrow> n') in
            if \<not> matchesForkDigest lib fresh forkDigest then next r
            else if \<not> hasSubnetOverlap fresh subnetIDs then next r
            else (case node_candidate lib quicOnly fresh of
                    None \<Rightarrow> next r
                  | Some ai \<Rightarrow>
                      if conn_any r (ai_id ai) then next r
                      else res_bind (route r ai) next)))"

definition RouteBootstrapPeers ::
  "('r \<Rightarrow> AddrInfo \<Rightarrow> 'r res) \<Rightarrow> ('r \<Rightarrow> peer_id \<Rightarrow> bool) \<Rightarrow> enode_lib \<Rightarrow> (string \<Rightarrow> enode option) \<Rightarrow> (enode \<Rightarrow> enode option) \<Rightarrow>
   string option \<Rightarrow> bytes \<Rightarrow> u64 list \<Rightarrow> bool \<Rightarrow> (nat \<Rightarrow> nat) \<Rightarrow> (nat \<Rightarrow> bool) \<Rightarrow> 'r \<Rightarrow> 'r res" where
  "RouteBootstrapPeers route conn_any lib parse request text forkDigest subnetIDs quicOnly rnd ctx_err r =
     (case text of
        None \<Rightarrow> Inr r
      | Some txt \<Rightarrow>
          bootstrap_loop route conn_any lib parse request forkDigest subnetIDs quicOnly ctx_err 0 r
            (go_shuffle rnd (bootstrap_lines txt)))"

section \<open>Which peers are routed\<close>

definition disc_candidate :: "enode_lib \<Rightarrow> disc_config \<Rightarrow> enode \<Rightarrow> AddrInfo option" where
  "disc_candidate lib cfg n =
     (if dc_CrawlFile cfg = '''' \<and> \<not> hasSubnetOverlap n (dc_SubnetIDs cfg) then None
      else node_candidate lib (dc_QuicOnly cfg) n)"

definition boot_candidate ::
  "enode_lib \<Rightarrow> (string \<Rightarrow> enode option) \<Rightarrow> (enode \<Rightarrow> enode option) \<Rightarrow> bytes \<Rightarrow> u64 list \<Rightarrow> bool \<Rightarrow> string \<Rightarrow> AddrInfo option" where
  "boot_candidate lib parse request forkDigest subnetIDs quicOnly line =
     (case parse line of
        None \<Rightarrow> None
      | Some n \<Rightarrow>
         (let fresh = (case request n of None \<Rightarrow> n | Some n' \<Rightarrow> n') in
          if matchesForkDigest lib fresh forkDigest \<and> hasSubnetOverlap fresh subnetIDs
          then node_candidate lib quicOnly fresh else None))"

definition has_peer_opt :: "crawlFileWriter option \<Rightarrow> peer_id \<Rightarrow> bool" where
  "has_peer_opt w p = (case w of None \<Rightarrow> False | Some c \<Rightarrow> HasPeer c p)"

lemma HasPeer_RegisterENR [simp]: "HasPeer (RegisterENR c p e) q \<longleftrightarrow> q = p \<or> HasPeer c q"
  by (auto simp: HasPeer_def RegisterENR_def)

text \<open>The candidates of a batch that are routed: not connected and, with a crawl writer, not known to it.\<close>

definition routed_ids :: "('n \<Rightarrow> AddrInfo option) \<Rightarrow> (peer_id \<Rightarrow> bool) \<Rightarrow> 'n list \<Rightarrow> peer_id set" where
  "routed_ids cand skip ns = {p. \<not> skip p \<and> (\<exists>n \<in> set ns. map_option ai_id (cand n) = Some p)}"

lemma routed_ids_Nil [simp]: "routed_ids cand skip [] = {}"
  by (simp add: routed_ids_def)

lemma routed_ids_Cons: "routed_ids cand skip (n # ns) = routed_ids cand skip [n] \<union> routed_ids cand skip ns"
  by (auto simp: routed_ids_def)

context peer_router
begin

lemma on_node_ok:
  assumes "inv (ds_router st)"
    and new_def: "new = routed_ids (disc_candidate lib cfg)
      (\<lambda>p. conn_any (ds_router st) p \<or> has_peer_opt (ds_writer st) p) [n]"
  obtains st' where "on_node route conn_any lib cfg st n = Inr st'" and "inv (ds_router st')"
    and "conn_any (ds_router st') = conn_any (ds_router st)"
    and "known (ds_router st') = known (ds_router st) \<union> new"
    and "has_peer_opt (ds_writer st') = (\<lambda>p. has_peer_opt (ds_writer st) p \<or> (ds_writer st \<noteq> None \<and> p \<in> new))"
    and "(ds_writer st' = None) = (ds_writer st = None)" and "ds_found st' = ds_found st + 1"
proof (cases "disc_candidate lib cfg n")
  case None
  then have "new = {}" by (simp add: new_def routed_ids_def)
  moreover from None have "on_node route conn_any lib cfg st n = Inr (st\<lparr>ds_found := ds_found st + 1\<rparr>)"
    by (auto simp: on_node_def disc_candidate_def Let_def split: if_splits)
  ultimately show thesis using that assms(1) by simp
next
  case (Some ai)
  then have cand: "node_candidate lib (dc_QuicOnly cfg) n = Some ai"
    and ov: "\<not> (dc_CrawlFile cfg = '''' \<and> \<not> hasSubnetOverlap n (dc_SubnetIDs cfg))"
    by (auto simp: disc_candidate_def split: if_splits)
  show thesis
  proof (cases "conn_any (ds_router st) (ai_id ai) \<or> has_peer_opt (ds_writer st) (ai_id ai)")
    case True
    then have "new = {}" using Some by (auto simp: new_def routed_ids_def)
    moreover have "on_node route conn_any lib cfg st n = Inr (st\<lparr>ds_found := ds_found st + 1\<rparr>)"
      using cand ov True by (auto simp: on_node_def has_peer_opt_def Let_def split: option.splits)
    ultimately show thesis using that assms(1) by simp
  next
    case False
    then have new: "new = {ai_id ai}" using Some by (auto simp: new_def routed_ids_def)
    obtain r where r: "route (ds_router st) ai = Inr r" using route_total [OF assms(1)] by blast
    let ?st = "st\<lparr>ds_found := ds_found st + 1, ds_router := r,
      ds_writer := map_option (\<lambda>w. RegisterENR w (ai_id ai) (en_String n)) (ds_writer st)\<rparr>"
    have "on_node route conn_any lib cfg st n = Inr ?st"
      using cand ov False r by (cases "ds_writer st") (auto simp: on_node_def has_peer_opt_def Let_def)
    then show thesis
      using that [of ?st] route_inv [OF assms(1) r] route_known [OF assms(1) r] route_conn [OF r] new
      by (cases "ds_writer st") (auto simp: has_peer_opt_def fun_eq_iff)
  qed
qed

lemma discoverPeers_ok:
  assumes "inv (ds_router st)"
  obtains st' where "discoverPeers route conn_any lib cfg st (map DiscNode ns) = Inr st'" and "inv (ds_router st')"
    and "conn_any (ds_router st') = conn_any (ds_router st)"
    and "known (ds_router st') = known (ds_router st) \<union>
      routed_ids (disc_candidate lib cfg) (\<lambda>p. conn_any (ds_router st) p \<or> has_peer_opt (ds_writer st) p) ns"
    and "ds_found st' = ds_found st + length ns"
  using assms
proof (induction ns arbitrary: st thesis)
  case Nil
  then show ?case by simp
next
  case (Cons n ns)
  let ?skip = "\<lambda>st p. conn_any (ds_router st) p \<or> has_peer_opt (ds_writer st) p"
  obtain st1 where 1: "on_node route conn_any lib cfg st n = Inr st1" "inv (ds_router st1)"
    "conn_any (ds_router st1) = conn_any (ds_router st)"
    "known (ds_router st1) = known (ds_router st) \<union> routed_ids (disc_candidate lib cfg) (?skip st) [n]"
    "has_peer_opt (ds_writer st1) = (\<lambda>p. has_peer_opt (ds_writer st) p \<or>
       (ds_writer st \<noteq> None \<and> p \<in> routed_ids (disc_candidate lib cfg) (?skip st) [n]))"
    "ds_found st1 = ds_found st + 1"
    by (rule on_node_ok [OF Cons.prems(2) refl])
  obtain st2 where 2: "discoverPeers route conn_any lib cfg st1 (map DiscNode ns) = Inr st2" "inv (ds_router st2)"
    "conn_any (ds_router st2) = conn_any (ds_router st1)"
    "known (ds_router st2) = known (ds_router st1) \<union> routed_ids (disc_candidate lib cfg) (?skip st1) ns"
    "ds_found st2 = ds_found st1 + length ns"
    by (rule Cons.IH [OF _ 1(2)])
  have "routed_ids (disc_candidate lib cfg) (?skip st) [n] \<union> routed_ids (disc_candidate lib cfg) (?skip st1) ns =
      routed_ids (disc_candidate lib cfg) (?skip st) (n # ns)"
    unfolding 1(3,5) by (auto simp: routed_ids_def)
  with 1 2 show ?case by (intro Cons.prems(1) [of st2]) (auto simp: Un_assoc)
qed

lemma bootstrap_loop_ok:
  assumes "inv r" and "\<And>j. \<not> ctx_err j"
  obtains r' where "bootstrap_loop route conn_any lib parse request fd subnets quicOnly ctx_err i r ls = Inr r'"
    and "inv r'" and "conn_any r' = conn_any r"
    and "known r' = known r \<union> routed_ids (boot_candidate lib parse request fd subnets quicOnly) (conn_any r) ls"
  using assms(1)
proof (induction ls arbitrary: i r thesis)
  case Nil
  then show ?case by simp
next
  case (Cons line ls)
  let ?cand = "boot_candidate lib parse request fd subnets quicOnly"
  let ?loop = "bootstrap_loop route conn_any lib parse request fd subnets quicOnly ctx_err"
  have step: "?loop i r (line # ls) =
      (case ?cand line of
         None \<Rightarrow> ?loop (i + 1) r ls
       | Some ai \<Rightarrow> if conn_any r (ai_id ai) then ?loop (i + 1) r ls else res_bind (route r ai) (\<lambda>r. ?loop (i + 1) r ls))"
    using assms(2) by (simp add: boot_candidate_def Let_def split: option.split)
  show ?case
  proof (cases "routed_ids ?cand (conn_any r) [line] = {}")
    case True
    then have same: "?loop i r (line # ls) = ?loop (i + 1) r ls"
      unfolding step by (auto simp: routed_ids_def simp del: bootstrap_loop.simps split: option.split)
    obtain r2 where "?loop (i + 1) r ls = Inr r2" "inv r2" "conn_any r2 = conn_any r"
      "known r2 = known r \<union> routed_ids ?cand (conn_any r) ls"
      by (rule Cons.IH [OF _ Cons.prems(2), of "i + 1"])
    with same True show ?thesis
      by (intro Cons.prems(1) [of r2]) (simp_all add: routed_ids_Cons [of _ _ line ls] del: bootstrap_loop.simps)
  next
    case False
    then obtain ai where ai: "?cand line = Some ai" "\<not> conn_any r (ai_id ai)" by (auto simp: routed_ids_def)
    obtain r1 where r1: "route r ai = Inr r1" using route_total [OF Cons.prems(2)] by blast
    obtain r2 where "?loop (i + 1) r1 ls = Inr r2" "inv r2" "conn_any r2 = conn_any r1"
      "known r2 = known r1 \<union> routed_ids ?cand (conn_any r1) ls"
      by (rule Cons.IH [OF _ route_inv [OF Cons.prems(2) r1], of "i + 1"])
    moreover have "routed_ids ?cand (conn_any r) [line] = {ai_id ai}" using ai by (auto simp: routed_ids_def)
    ultimately show ?thesis
      using ai r1 route_known [OF Cons.prems(2) r1] route_conn [OF r1]
      by (intro Cons.prems(1) [of r2], unfold step)
        (simp_all add: routed_ids_Cons [of _ _ line ls] del: bootstrap_loop.simps)
  qed
qed

end

section \<open>Filters\<close>

lemma overlap_loop_iff:
  "overlap_loop a ids \<longleftrightarrow>
     (\<exists>sid \<in> set ids. unat sid < 64 \<and> unat sid div 8 < length a \<and> bit (a ! (unat sid div 8)) (unat sid mod 8))"
  by (induction ids) (auto simp: word_less_nat_alt unat_div unat_mod and_exp_eq_0_iff_not_bit)

lemma overlap_MakeAttnetsBytes:
  assumes "en_attnets n = Some (MakeAttnetsBytes theirs)"
  shows "hasSubnetOverlap n ours \<longleftrightarrow> (\<exists>sid. sid < 64 \<and> sid \<in> set ours \<and> sid \<in> set theirs)"
proof -
  have len: "length (MakeAttnetsBytes theirs) = 8" by (simp add: MakeAttnetsBytes_def)
  have "bit (MakeAttnetsBytes theirs ! (unat sid div 8)) (unat sid mod 8) \<longleftrightarrow> sid \<in> set theirs"
    if "unat sid < 64" for sid
  proof -
    have "8 * (unat sid div 8) + unat sid mod 8 = unat sid" by simp
    moreover have "unat sid \<in> unat ` set theirs \<longleftrightarrow> sid \<in> set theirs"
      by (auto dest: word_unat_eq_iff [THEN iffD2])
    ultimately show ?thesis using that by (subst bit_MakeAttnetsBytes) auto
  qed
  then show ?thesis
    using assms by (auto simp: hasSubnetOverlap_def overlap_loop_iff len word_less_nat_alt)
qed

text \<open>
  C24: the subnet filter reads back the bit vector exactly.  A node that advertises the bit vector
  made from its subnets overlaps with ours iff some attestation subnet (below 64) is in both lists.
\<close>

theorem subnet_overlap_iff_shared:
  assumes "en_attnets n = Some (MakeAttnetsBytes theirs)"
  shows "hasSubnetOverlap n ours \<longleftrightarrow> (\<exists>sid. sid < 64 \<and> sid \<in> set ours \<and> sid \<in> set theirs)"
  using assms by (rule overlap_MakeAttnetsBytes)

definition demo_node :: enode where
  "demo_node = \<lparr>en_eth2 = Some [1, 2, 3, 4], en_attnets = Some (MakeAttnetsBytes [5, 9]), en_Pubkey = Some [112],
     en_IP = Some [10, 0, 0, 1], en_quic = Some 9001, en_TCP = 9000, en_String = ''enr:demo''\<rparr>"

theorem subnet_overlap_iff_shared_witness:
  "hasSubnetOverlap demo_node [9, 63] \<and> \<not> hasSubnetOverlap demo_node [1, 64]"
proof -
  have a: "en_attnets demo_node = Some (MakeAttnetsBytes [5, 9])" by (simp add: demo_node_def)
  show ?thesis unfolding subnet_overlap_iff_shared [OF a] by (auto intro: exI [of _ 9])
qed

lemma has_quic_loop_iff: "has_quic_loop as \<longleftrightarrow> (\<exists>a \<in> set as. sublist ''/quic-v1'' a)"
  by (induction as) (auto simp: str_contains_iff)

lemma sublist_char: "sublist xs ys \<Longrightarrow> x \<in> set xs \<Longrightarrow> x \<in> set ys"
  by (auto simp: sublist_def)

definition quic_transport :: "string \<Rightarrow> bytes \<Rightarrow> nat \<Rightarrow> string" where
  "quic_transport ipType ip qp = ''/'' @ ipType @ ''/'' @ ip_String ip @ ''/udp/'' @ dec_nat qp @ ''/quic-v1''"

definition tcp_transport :: "string \<Rightarrow> bytes \<Rightarrow> nat \<Rightarrow> string" where
  "tcp_transport ipType ip port = ''/'' @ ipType @ ''/'' @ ip_String ip @ ''/tcp/'' @ dec_nat port"

lemma quic_transport_quic: "sublist ''/quic-v1'' (quic_transport ipType ip qp)"
  unfolding quic_transport_def append_assoc [symmetric] by (rule suffix_imp_sublist) (rule suffixI, rule refl)

lemma tcp_transport_not_quic:
  assumes "ipType \<in> {''ip4'', ''ip6''}"
  shows "\<not> sublist ''/quic-v1'' (tcp_transport ipType ip port)"
proof
  assume "sublist ''/quic-v1'' (tcp_transport ipType ip port)"
  then have "CHR ''q'' \<in> set (tcp_transport ipType ip port)" by (rule sublist_char) simp
  with assms show False by (auto simp: tcp_transport_def ip_String_no_q dec_nat_no_q)
qed

lemma port_addr_cases:
  assumes "port_addr lib err fmt port = Inr as"
    and "\<And>p a. port = Some p \<Longrightarrow> p \<noteq> 0 \<Longrightarrow> el_NewMultiaddr lib (fmt p) = Some a \<Longrightarrow> a = fmt p"
  shows "as = (case port of None \<Rightarrow> [] | Some p \<Rightarrow> if p = 0 then [] else [fmt p])"
  using assms by (auto simp: port_addr_def split: option.splits if_splits)

lemma retrieve_cases:
  assumes m: "retrieveMultiAddrsFromNode lib n = Inr ms" and "ms \<noteq> []"
  obtains ip pid quic tcp where "en_IP n = Some ip"
    and "port_addr lib BadQUICAddr (\<lambda>qp. quic_addr (ip_type ip) ip qp (el_IDString lib pid)) (en_quic n) = Inr quic"
    and "port_addr lib BadTCPAddr (\<lambda>p. tcp_addr (ip_type ip) ip p (el_IDString lib pid)) (Some (en_TCP n)) = Inr tcp"
    and "ms = quic @ tcp"
proof -
  from m obtain pk where 1: "en_Pubkey n = Some pk"
    by (cases "en_Pubkey n") (simp_all add: retrieveMultiAddrsFromNode_def)
  from m 1 obtain key where 2: "el_ConvertPubkey lib pk = Some key"
    by (cases "el_ConvertPubkey lib pk") (simp_all add: retrieveMultiAddrsFromNode_def)
  from m 1 2 obtain pid where 3: "el_IDFromPublicKey lib key = Some pid"
    by (cases "el_IDFromPublicKey lib key") (simp_all add: retrieveMultiAddrsFromNode_def)
  from m 1 2 3 assms(2) obtain ip where 4: "en_IP n = Some ip"
    by (cases "en_IP n") (simp_all add: retrieveMultiAddrsFromNode_def)
  let ?q = "port_addr lib BadQUICAddr (\<lambda>qp. quic_addr (ip_type ip) ip qp (el_IDString lib pid)) (en_quic n)"
  let ?t = "port_addr lib BadTCPAddr (\<lambda>p. tcp_addr (ip_type ip) ip p (el_IDString lib pid)) (Some (en_TCP n))"
  from m 1 2 3 4 have m': "(case ?q of Inl e \<Rightarrow> Inl e | Inr quic \<Rightarrow> (case ?t of Inl e \<Rightarrow> Inl e | Inr tcp \<Rightarrow> Inr (quic @ tcp))) = Inr ms"
    by (simp add: retrieveMultiAddrsFromNode_def Let_def)
  then obtain quic where q: "?q = Inr quic" by (cases ?q) simp_all
  with m' obtain tcp where t: "?t = Inr tcp" by (cases ?t) simp_all
  from m' have "ms = quic @ tcp" by (simp add: q t)
  then show thesis using that 4 q t by blast
qed

text \<open>The transport addresses that a record gives: its IP with its QUIC port and with its TCP port.\<close>

definition node_transports :: "enode \<Rightarrow> string list" where
  "node_transports n =
     (case en_IP n of
        None \<Rightarrow> []
      | Some ip \<Rightarrow>
          (case en_quic n of None \<Rightarrow> [] | Some qp \<Rightarrow> if qp = 0 then [] else [quic_transport (ip_type ip) ip qp]) @
          (if en_TCP n = 0 then [] else [tcp_transport (ip_type ip) ip (en_TCP n)]))"

text \<open>
  C32: the QUIC filter keeps exactly the nodes with a QUIC port.  Suppose that multiaddresses behave on the
  addresses of this record, which are written in canonical form, as documented: one that parses is printed
  as it was written, and splitting off the peer IDs leaves the transport addresses.  Then the
  candidate made from the record has a QUIC address iff the record has a non-zero QUIC port,
  whatever its IP address and its TCP port.
\<close>

theorem quic_filter_exact:
  assumes "enodeToAddrInfo lib n = Inr (Some ai)"
    and text_kept: "\<And>t pid a. t \<in> set (node_transports n) \<Longrightarrow>
      el_NewMultiaddr lib (t @ ''/p2p/'' @ el_IDString lib pid) = Some a \<Longrightarrow> a = t @ ''/p2p/'' @ el_IDString lib pid"
    and transports_kept: "\<And>pid info. el_AddrInfos lib (map (\<lambda>t. t @ ''/p2p/'' @ el_IDString lib pid) (node_transports n)) = Some [info] \<Longrightarrow>
      set (ai_addrs info) = set (node_transports n)"
  shows "hasQUICAddr ai \<longleftrightarrow> (\<exists>qp. en_quic n = Some qp \<and> qp \<noteq> 0)"
proof -
  from assms(1) obtain multiaddrs where m: "retrieveMultiAddrsFromNode lib n = Inr multiaddrs"
    and i: "el_AddrInfos lib multiaddrs = Some [ai]"
    by (auto simp: enodeToAddrInfo_def length_Suc_conv split: sum.splits if_splits option.splits)
  from assms(1) m have "multiaddrs \<noteq> []" by (auto simp: enodeToAddrInfo_def)
  with m obtain ip pid quic tcp where ip: "en_IP n = Some ip"
    and quic: "port_addr lib BadQUICAddr (\<lambda>qp. quic_addr (ip_type ip) ip qp (el_IDString lib pid)) (en_quic n) = Inr quic"
    and tcp: "port_addr lib BadTCPAddr (\<lambda>p. tcp_addr (ip_type ip) ip p (el_IDString lib pid)) (Some (en_TCP n)) = Inr tcp"
    and all: "multiaddrs = quic @ tcp"
    by (rule retrieve_cases)
  let ?id = "''/p2p/'' @ el_IDString lib pid"
  have qa: "quic_addr (ip_type ip) ip p (el_IDString lib pid) = quic_transport (ip_type ip) ip p @ ?id"
    and ta: "tcp_addr (ip_type ip) ip p (el_IDString lib pid) = tcp_transport (ip_type ip) ip p @ ?id" for p
    by (simp_all add: quic_addr_def tcp_addr_def quic_transport_def tcp_transport_def)
  have q: "quic = (case en_quic n of None \<Rightarrow> [] | Some p \<Rightarrow> if p = 0 then [] else [quic_transport (ip_type ip) ip p @ ?id])"
    by (rule port_addr_cases [OF quic, unfolded qa]) (rule text_kept, simp_all add: node_transports_def ip)
  have t: "tcp = (case Some (en_TCP n) of None \<Rightarrow> [] | Some p \<Rightarrow> if p = 0 then [] else [tcp_transport (ip_type ip) ip p @ ?id])"
    by (rule port_addr_cases [OF tcp, unfolded ta]) (rule text_kept, simp_all add: node_transports_def ip)
  have "multiaddrs = map (\<lambda>t. t @ ?id) (node_transports n)"
    unfolding all q t by (cases "en_quic n") (simp_all add: node_transports_def ip)
  with i transports_kept have "set (ai_addrs ai) = set (node_transports n)" by blast
  then have "hasQUICAddr ai \<longleftrightarrow> (\<exists>a \<in> set (node_transports n). sublist ''/quic-v1'' a)"
    by (simp add: hasQUICAddr_def has_quic_loop_iff)
  moreover have "ip_type ip \<in> {''ip4'', ''ip6''}" by (simp add: ip_type_def)
  ultimately show ?thesis using quic_transport_quic tcp_transport_not_quic
    by (cases "en_quic n") (auto simp: node_transports_def ip)
qed

text \<open>
  Libraries for the witnesses: an identity is its key's bytes, written with dashes for slashes, and the
  peer part is cut off an address.
\<close>

definition cut_peer :: "string \<Rightarrow> string" where
  "cut_peer a = take (length a - length (takeWhile (\<lambda>c. c \<noteq> CHR ''/'') (rev a)) - 5) a"

definition demo_lib :: enode_lib where
  "demo_lib = \<lparr>el_UnmarshalForkID = Some, el_ConvertPubkey = Some, el_IDFromPublicKey = (\<lambda>k. Some (bytes_str k)),
     el_IDString = map (\<lambda>c. if c = CHR ''/'' then CHR ''-'' else c), el_NewMultiaddr = Some,
     el_AddrInfos = (\<lambda>as. Some [\<lparr>ai_id = ''p'', ai_addrs = map cut_peer as\<rparr>])\<rparr>"

lemma cut_peer_append: "CHR ''/'' \<notin> set ids \<Longrightarrow> cut_peer (t @ ''/p2p/'' @ ids) = t"
proof -
  assume "CHR ''/'' \<notin> set ids"
  then have "takeWhile (\<lambda>c. c \<noteq> CHR ''/'') (rev ids @ CHR ''/'' # zs) = rev ids" for zs
    by (subst takeWhile_append2) auto
  then show ?thesis by (simp add: cut_peer_def)
qed

lemma demo_candidate:
  "enodeToAddrInfo demo_lib demo_node =
     Inr (Some \<lparr>ai_id = ''p'', ai_addrs = [''/ip4/10.0.0.1/udp/9001/quic-v1'', ''/ip4/10.0.0.1/tcp/9000'']\<rparr>)"
  by (simp add: enodeToAddrInfo_def retrieveMultiAddrsFromNode_def demo_lib_def demo_node_def port_addr_def
      quic_addr_def tcp_addr_def ip_type_def ip_To4_def ip_String_def dec_nat.simps digit_char_def cut_peer_def
      bytes_str_def Let_def)

theorem quic_filter_exact_witness:
  "hasQUICAddr \<lparr>ai_id = ''p'', ai_addrs = [''/ip4/10.0.0.1/udp/9001/quic-v1'', ''/ip4/10.0.0.1/tcp/9000'']\<rparr> \<longleftrightarrow>
     (\<exists>qp. en_quic demo_node = Some qp \<and> qp \<noteq> 0)"
proof (rule quic_filter_exact [OF demo_candidate])
  have "CHR ''/'' \<notin> set (el_IDString demo_lib pid)" for pid by (auto simp: demo_lib_def)
  from cut_peer_append [OF this]
  show "set (ai_addrs info) = set (node_transports demo_node)"
    if "el_AddrInfos demo_lib (map (\<lambda>t. t @ ''/p2p/'' @ el_IDString demo_lib pid) (node_transports demo_node)) = Some [info]" for pid info
    using that by (auto simp: demo_lib_def comp_def)
qed (auto simp: demo_lib_def)

section \<open>Routing into the finder\<close>

lemma fork_filter_nodes:
  "fork_filter lib cfg (map DiscNode ns) =
     map DiscNode (filter (\<lambda>n. matchesForkDigest lib n (dc_ForkDigest cfg)) ns)"
  by (simp add: fork_filter_def filter_map comp_def)

text \<open>
  C13: discovery hands over exactly the peers it should.  In probe mode the loop over any batch of
  random nodes never fails, and afterwards the peers known to the finder are those known before and
  the candidates of the nodes that are on our fork, share a subnet with us, have an address (a QUIC
  one if only QUIC is used) and were not connected; the finder's invariant holds again.
\<close>

theorem discovery_routes_exactly_candidates:
  assumes "pf_ok (pf, s)" and "dc_CrawlFile cfg = ''''"
  shows "\<exists>st'. discoverPeers pf_route pf_conn lib cfg \<lparr>ds_router = (pf, s), ds_writer = None, ds_found = k\<rparr>
        (fork_filter lib cfg (map DiscNode ns)) = Inr st' \<and>
      pf_ok (ds_router st') \<and>
      known_peers (fst (ds_router st')) = known_peers pf \<union>
        {p. \<not> IsConnectedToAny pf p \<and>
            (\<exists>n \<in> set ns. matchesForkDigest lib n (dc_ForkDigest cfg) \<and> hasSubnetOverlap n (dc_SubnetIDs cfg) \<and>
               map_option ai_id (node_candidate lib (dc_QuicOnly cfg) n) = Some p)}"
proof -
  let ?st = "\<lparr>ds_router = (pf, s), ds_writer = None, ds_found = k\<rparr>"
  let ?ns = "filter (\<lambda>n. matchesForkDigest lib n (dc_ForkDigest cfg)) ns"
  obtain st' where st': "discoverPeers pf_route pf_conn lib cfg ?st (map DiscNode ?ns) = Inr st'" "pf_ok (ds_router st')"
    "known_peers (fst (ds_router st')) = known_peers (fst (ds_router ?st)) \<union>
      routed_ids (disc_candidate lib cfg) (\<lambda>p. pf_conn (ds_router ?st) p \<or> has_peer_opt (ds_writer ?st) p) ?ns"
    using assms(1) by (auto intro: pfr.discoverPeers_ok [of ?st lib cfg ?ns])
  have "routed_ids (disc_candidate lib cfg) (\<lambda>p. pf_conn (ds_router ?st) p \<or> has_peer_opt (ds_writer ?st) p) ?ns =
      {p. \<not> IsConnectedToAny pf p \<and>
          (\<exists>n \<in> set ns. matchesForkDigest lib n (dc_ForkDigest cfg) \<and> hasSubnetOverlap n (dc_SubnetIDs cfg) \<and>
             map_option ai_id (node_candidate lib (dc_QuicOnly cfg) n) = Some p)}"
    using assms(2) by (auto simp: routed_ids_def pf_conn_def has_peer_opt_def disc_candidate_def split: if_splits)
  with st' show ?thesis by (auto simp: fork_filter_nodes)
qed

definition demo_pf :: PeerFinder where
  "demo_pf = NewPeerFinder [(''a'', idle_host)]"

definition demo_sps :: SharedPeerSet where
  "demo_sps = \<lparr>assignments = Map.empty, instances = [''a''], nextIdx = 0\<rparr>"

definition demo_cfg :: disc_config where
  "demo_cfg = \<lparr>dc_DiscPort = 9000, dc_DiscV4Port = 0, dc_ForkDigest = [1, 2, 3, 4], dc_SubnetIDs = [9],
     dc_AttnetsBytes = MakeAttnetsBytes [9], dc_QuicOnly = True, dc_ActiveCrawl = True, dc_CrawlFile = ''''\<rparr>"

lemma demo_pf_ok: "pf_ok (demo_pf, demo_sps)"
  unfolding demo_pf_def by (rule New_pf_ok(1)) (simp add: NewSharedPeerSet_def demo_sps_def)

lemma demo_pf_start: "known_peers demo_pf = {}" "\<not> IsConnectedToAny demo_pf p"
  by (simp_all add: demo_pf_def known_peers_def lookup_peer_def NewPeerFinder_peers IsConnectedToAny_def
      host_connected_def idle_host_def) (simp_all add: NewPeerFinder_def host_connected_def)

lemma demo_node_passes:
  "matchesForkDigest demo_lib demo_node [1, 2, 3, 4]"
  "hasSubnetOverlap demo_node [9]"
  "map_option ai_id (node_candidate demo_lib True demo_node) = Some ''p''"
proof -
  show "matchesForkDigest demo_lib demo_node [1, 2, 3, 4]"
    by (simp add: matchesForkDigest_def demo_node_def demo_lib_def)
  show "hasSubnetOverlap demo_node [9]"
    by (simp add: hasSubnetOverlap_def demo_node_def MakeAttnetsBytes_def set_subnet_def)
  show "map_option ai_id (node_candidate demo_lib True demo_node) = Some ''p''"
    by (simp add: node_candidate_def demo_candidate hasQUICAddr_def)
qed

theorem discovery_routes_exactly_candidates_witness:
  "\<exists>st'. discoverPeers pf_route pf_conn demo_lib demo_cfg \<lparr>ds_router = (demo_pf, demo_sps), ds_writer = None, ds_found = 0\<rparr>
        (fork_filter demo_lib demo_cfg (map DiscNode [demo_node])) = Inr st' \<and>
      known_peers (fst (ds_router st')) = {''p''}"
proof -
  have "dc_CrawlFile demo_cfg = ''''" by (simp add: demo_cfg_def)
  from discovery_routes_exactly_candidates [OF demo_pf_ok this, of demo_lib 0 "[demo_node]"]
  show ?thesis by (auto simp: demo_pf_start demo_cfg_def demo_node_passes)
qed

text \<open>
  The bootstrap file is routed completely.  Reading a bootstrap file while the context lives
  never fails, and adds to the finder exactly the candidates of its non-empty lines (with the
  refreshed record where the refresh succeeds) that pass the same filters, whatever the shuffle.
\<close>

lemma bootstrap_routes_exactly_candidates:
  assumes "pf_ok (pf, s)" and "\<forall>i. \<not> ctx_err i"
  shows "\<exists>r'. RouteBootstrapPeers pf_route pf_conn lib parse request (Some txt) fd subnets quicOnly rnd ctx_err (pf, s) = Inr r' \<and>
      pf_ok r' \<and>
      known_peers (fst r') = known_peers pf \<union>
        {p. \<not> IsConnectedToAny pf p \<and>
            (\<exists>line \<in> set (bootstrap_lines txt).
               map_option ai_id (boot_candidate lib parse request fd subnets quicOnly line) = Some p)}"
proof -
  obtain r' where "bootstrap_loop pf_route pf_conn lib parse request fd subnets quicOnly ctx_err 0 (pf, s)
      (go_shuffle rnd (bootstrap_lines txt)) = Inr r'" "pf_ok r'"
    "known_peers (fst r') = known_peers (fst (pf, s)) \<union>
      routed_ids (boot_candidate lib parse request fd subnets quicOnly) (pf_conn (pf, s)) (go_shuffle rnd (bootstrap_lines txt))"
    using pfr.bootstrap_loop_ok [OF assms(1), of ctx_err lib parse request fd subnets quicOnly 0
      "go_shuffle rnd (bootstrap_lines txt)"] assms(2) by metis
  then show ?thesis by (simp add: RouteBootstrapPeers_def routed_ids_def pf_conn_def)
qed

lemma bootstrap_routes_exactly_candidates_example:
  "\<exists>r'. RouteBootstrapPeers pf_route pf_conn demo_lib (\<lambda>l. if l = ''enr:demo'' then Some demo_node else None)
        (\<lambda>_. None) (Some ''enr:demo'') [1, 2, 3, 4] [9] True (\<lambda>_. 0) (\<lambda>_. False) (demo_pf, demo_sps) = Inr r' \<and>
      known_peers (fst r') = {''p''}"
proof -
  have lines: "bootstrap_lines ''enr:demo'' = [''enr:demo'']"
    by (simp add: bootstrap_lines_def scan_lines.simps drop_cr_def str_TrimSpace_def is_space_def)
  have "\<forall>i::nat. \<not> (\<lambda>_. False) i" by simp
  from bootstrap_routes_exactly_candidates [OF demo_pf_ok this, of demo_lib
      "\<lambda>l. if l = ''enr:demo'' then Some demo_node else None" "\<lambda>_. None" "''enr:demo''" "[1, 2, 3, 4]" "[9]" True "\<lambda>_. 0"]
  show ?thesis by (auto simp: demo_pf_start lines boot_candidate_def demo_node_passes)
qed

section \<open>The crawl file is free of duplicates\<close>

text \<open>The operations on the writer; each runs under its mutex, so any interleaving is a sequence of them.\<close>

datatype cw_op = CwRegister peer_id string | CwConnected peer_id

fun cw_run :: "crawlFileWriter \<Rightarrow> cw_op list \<Rightarrow> crawlFileWriter" where
  "cw_run c [] = c"
| "cw_run c (CwRegister p e # ops) = cw_run (RegisterENR c p e) ops"
| "cw_run c (CwConnected p # ops) = cw_run (WriteConnected c p) ops"

lemma cw_run_append: "cw_run c (xs @ ys) = cw_run (cw_run c xs) ys"
  by (induction c xs rule: cw_run.induct) simp_all

definition cw_rel :: "string list \<Rightarrow> cw_op list \<Rightarrow> (peer_id \<times> string) list \<Rightarrow> crawlFileWriter \<Rightarrow> bool" where
  "cw_rel old ops ws c \<longleftrightarrow>
     distinct (map fst ws) \<and> cw_lines c = old @ map snd ws \<and> cw_seen c = fst ` set ws \<and>
     (\<forall>(p, e) \<in> set ws. CwRegister p e \<in> set ops \<and> CwConnected p \<in> set ops) \<and>
     (\<forall>p e. cw_pending c p = Some e \<longrightarrow> CwRegister p e \<in> set ops)"

lemma cw_rel_step:
  assumes "cw_rel old ops ws c"
  shows "\<exists>ws'. cw_rel old (ops @ [op]) (ws @ ws') (cw_run c [op])"
proof (cases op)
  case (CwRegister p e)
  with assms have "cw_rel old (ops @ [op]) (ws @ []) (cw_run c [op])"
    by (auto simp: cw_rel_def RegisterENR_def)
  then show ?thesis by blast
next
  case (CwConnected p)
  show ?thesis
  proof (cases "cw_pending c p = None \<or> p \<in> cw_seen c")
    case True
    with assms CwConnected have "cw_rel old (ops @ [op]) (ws @ []) (cw_run c [op])"
      by (auto simp: cw_rel_def WriteConnected_def Let_def split: option.splits)
    then show ?thesis by blast
  next
    case False
    then obtain e where e: "cw_pending c p = Some e" "p \<notin> cw_seen c" by auto
    with assms CwConnected have "cw_rel old (ops @ [op]) (ws @ [(p, e)]) (cw_run c [op])"
      by (auto simp: cw_rel_def WriteConnected_def Let_def)
    then show ?thesis by blast
  qed
qed

lemma cw_run_rel: "\<exists>ws. cw_rel old ops ws (cw_run (newCrawlFileWriter old) ops)"
proof (induction ops rule: rev_induct)
  case Nil
  have "cw_rel old [] [] (newCrawlFileWriter old)" by (simp add: cw_rel_def newCrawlFileWriter_def)
  then show ?case by auto
next
  case (snoc op ops)
  then show ?case using cw_rel_step by (fastforce simp: cw_run_append)
qed

lemma cw_run_pending_or_seen:
  "cw_pending c p \<noteq> None \<or> p \<in> cw_seen c \<Longrightarrow> cw_pending (cw_run c ops) p \<noteq> None \<or> p \<in> cw_seen (cw_run c ops)"
  by (induction c ops rule: cw_run.induct)
    (auto simp: RegisterENR_def WriteConnected_def Let_def split: option.splits if_splits)

lemma cw_run_seen: "p \<in> cw_seen c \<Longrightarrow> p \<in> cw_seen (cw_run c ops)"
  by (induction c ops rule: cw_run.induct)
    (auto simp: RegisterENR_def WriteConnected_def Let_def split: option.splits if_splits)

text \<open>
  The crawl file has one record per peer that answered.  For every interleaving of
  registrations and connections, the lines written after those of earlier runs are the records of pairwise distinct peers, each
  of them registered for that peer, which had connected; and a peer that connects after being
  registered is in the file.
\<close>

lemma crawl_file_one_record_per_peer:
  assumes "ops = before @ CwRegister p e # between @ CwConnected p # after"
  shows "\<exists>ws. cw_lines (cw_run (newCrawlFileWriter old) ops) = old @ map snd ws \<and> distinct (map fst ws) \<and>
     (\<forall>(q, f) \<in> set ws. CwRegister q f \<in> set ops \<and> CwConnected q \<in> set ops) \<and> p \<in> fst ` set ws"
proof -
  obtain ws where ws: "cw_rel old ops ws (cw_run (newCrawlFileWriter old) ops)" using cw_run_rel by blast
  let ?c = "RegisterENR (cw_run (newCrawlFileWriter old) before) p e"
  have "cw_pending (cw_run ?c between) p \<noteq> None \<or> p \<in> cw_seen (cw_run ?c between)"
    by (rule cw_run_pending_or_seen) (simp add: RegisterENR_def)
  then have "p \<in> cw_seen (WriteConnected (cw_run ?c between) p)"
    by (auto simp: WriteConnected_def Let_def split: option.splits)
  then have "p \<in> cw_seen (cw_run (newCrawlFileWriter old) ops)"
    by (simp add: assms cw_run_append cw_run_seen)
  with ws show ?thesis by (auto simp: cw_rel_def)
qed

lemma crawl_file_one_record_per_peer_example:
  "\<exists>ws. cw_lines (cw_run (newCrawlFileWriter []) [CwRegister ''p'' ''enr:1'', CwRegister ''p'' ''enr:2'', CwConnected ''p'',
       CwConnected ''p'']) = map snd ws \<and> distinct (map fst ws) \<and> ''p'' \<in> fst ` set ws"
proof -
  have "[CwRegister ''p'' ''enr:1'', CwRegister ''p'' ''enr:2'', CwConnected ''p'', CwConnected ''p''] =
      [] @ CwRegister ''p'' ''enr:1'' # [CwRegister ''p'' ''enr:2''] @ CwConnected ''p'' # [CwConnected ''p'']" by simp
  from crawl_file_one_record_per_peer [OF this, of "[]"] show ?thesis by simp blast
qed

end
