(* ===== verification/Discovery_Start.thy ===== *)
theory Discovery_Start
  imports Discovery
begin

text \<open>
  \<^verbatim>\<open>StartDiscovery\<close> of \<^verbatim>\<open>discovery/discovery.go\<close>: the local node record, the listeners and the loops that
  are started.  The outcome of every call into go-ethereum, Prysm and the operating system is given
  by an environment; what the function does is recorded as a list of effects, also on the paths
  that end in an error.
\<close>

section \<open>Environment and effects\<close>

record disc_env =
  de_OpenDB :: bool
  de_MarshalForkID :: "bytes \<Rightarrow> bytes \<Rightarrow> u64 \<Rightarrow> bytes option"
  de_FarFutureEpoch :: u64
  de_BootstrapNodes :: "string list"
  de_Parse :: "string \<Rightarrow> enode option"
  de_ListenUDP :: "u64 \<Rightarrow> bool"
  de_ListenV5 :: bool
  de_OpenCrawlFile :: "string \<Rightarrow> string list option"
  de_ListenV4 :: bool

datatype disc_error =
    OpenDBFailed
  | MarshalFailed
  | ListenUDPFailed
  | ListenV5Failed
  | CrawlFileFailed
  | ListenUDPv4Failed
  | ListenV4Failed

text \<open>The loops run over the nodes of a listener, with or without the crawl writer.\<close>

datatype disc_effect =
    SetFallbackUDP u64
  | SetEth2 bytes
  | SetAttnets bytes
  | StartV5 u64 "enode list"
  | NotifyCrawlWriter
  | GoDiscoverV5 "crawlFileWriter option"
  | StartV4 u64 "enode list"
  | GoDiscoverV4 "crawlFileWriter option"

fun parse_bootnodes :: "(string \<Rightarrow> enode option) \<Rightarrow> string list \<Rightarrow> enode list" where
  "parse_bootnodes parse [] = []"
| "parse_bootnodes parse (addr # addrs) =
     (case parse addr of None \<Rightarrow> parse_bootnodes parse addrs | Some n \<Rightarrow> n # parse_bootnodes parse addrs)"

section \<open>Starting\<close>

definition start_v4 :: "disc_env \<Rightarrow> disc_config \<Rightarrow> enode list \<Rightarrow> crawlFileWriter option \<Rightarrow> disc_effect list \<Rightarrow>
  (disc_error + unit) \<times> disc_effect list" where
  "start_v4 env cfg bootNodes w eff =
     (if dc_DiscV4Port cfg \<noteq> 0 then
        (if \<not> de_ListenUDP env (dc_DiscV4Port cfg) then (Inl ListenUDPv4Failed, eff)
         else if \<not> de_ListenV4 env then (Inl ListenV4Failed, eff)
         else (Inr (), eff @ [StartV4 (dc_DiscV4Port cfg) bootNodes, GoDiscoverV4 w]))
      else (Inr (), eff))"

definition start_crawl :: "disc_env \<Rightarrow> disc_config \<Rightarrow> enode list \<Rightarrow> disc_effect list \<Rightarrow>
  (disc_error + unit) \<times> disc_effect list" where
  "start_crawl env cfg bootNodes eff =
     (if dc_CrawlFile cfg \<noteq> '''' then
        (case de_OpenCrawlFile env (dc_CrawlFile cfg) of
           None \<Rightarrow> (Inl CrawlFileFailed, eff)
         | Some old \<Rightarrow>
            (let w = Some (newCrawlFileWriter old)
             in start_v4 env cfg bootNodes w (eff @ [NotifyCrawlWriter, GoDiscoverV5 w])))
      else start_v4 env cfg bootNodes None (eff @ [GoDiscoverV5 None]))"

definition StartDiscovery :: "disc_env \<Rightarrow> disc_config \<Rightarrow> (disc_error + unit) \<times> disc_effect list" where
  "StartDiscovery env cfg =
     (if \<not> de_OpenDB env then (Inl OpenDBFailed, [])
      else
        let eff = [SetFallbackUDP (dc_DiscPort cfg)] in
        case de_MarshalForkID env (dc_ForkDigest cfg) (dc_ForkDigest cfg) (de_FarFutureEpoch env) of
          None \<Rightarrow> (Inl MarshalFailed, eff)
        | Some forkIDBytes \<Rightarrow>
           (let eff = eff @ [SetEth2 forkIDBytes, SetAttnets (dc_AttnetsBytes cfg)];
                bootNodes = parse_bootnodes (de_Parse env) (de_BootstrapNodes env)
            in if \<not> de_ListenUDP env (dc_DiscPort cfg) then (Inl ListenUDPFailed, eff)
               else if \<not> de_ListenV5 env then (Inl ListenV5Failed, eff)
               else
                 let eff = eff @ [StartV5 (dc_DiscPort cfg) bootNodes] in
                 if dc_ActiveCrawl cfg then start_crawl env cfg bootNodes eff else (Inr (), eff)))"

definition is_loop :: "disc_effect \<Rightarrow> bool" where
  "is_loop e \<longleftrightarrow> (\<exists>w. e = GoDiscoverV5 w \<or> e = GoDiscoverV4 w)"

section \<open>Properties\<close>

text \<open>
  Only the active crawler searches, and both searches share one crawl writer.  When discovery
  starts, the loops started are none for an instance that does not crawl; for the one that crawls,
  the discv5 loop, and the discv4 loop iff a discv4 port is set, both with the same crawl writer,
  which exists (with its connection notifier) iff a crawl file is configured.
\<close>

lemma StartDiscovery_loops:
  assumes "fst (StartDiscovery env cfg) = Inr ()"
  shows "\<exists>w. filter is_loop (snd (StartDiscovery env cfg)) =
       (if dc_ActiveCrawl cfg then GoDiscoverV5 w # (if dc_DiscV4Port cfg = 0 then [] else [GoDiscoverV4 w]) else []) \<and>
     (w = None \<longleftrightarrow> dc_CrawlFile cfg = '''') \<and>
     (NotifyCrawlWriter \<in> set (snd (StartDiscovery env cfg)) \<longleftrightarrow> dc_ActiveCrawl cfg \<and> dc_CrawlFile cfg \<noteq> '''')"
proof -
  have loops: "is_loop (GoDiscoverV5 w)" "is_loop (GoDiscoverV4 w)" "\<not> is_loop (SetFallbackUDP p)" "\<not> is_loop (SetEth2 b)"
    "\<not> is_loop (SetAttnets b)" "\<not> is_loop (StartV5 p ns)" "\<not> is_loop NotifyCrawlWriter" "\<not> is_loop (StartV4 p ns)" for w p b ns
    by (auto simp: is_loop_def)
  define w where "w = (if dc_CrawlFile cfg = '''' then None else map_option newCrawlFileWriter (de_OpenCrawlFile env (dc_CrawlFile cfg)))"
  show ?thesis
  proof (cases "dc_ActiveCrawl cfg")
    case False
    with assms show ?thesis
      by (intro exI [of _ "if dc_CrawlFile cfg = '''' then None else Some (newCrawlFileWriter [])"])
        (auto simp: StartDiscovery_def Let_def loops split: option.splits if_splits)
  next
    case True
    with assms show ?thesis
      by (intro exI [of _ w])
        (auto simp: StartDiscovery_def start_crawl_def start_v4_def w_def Let_def loops split: option.splits if_splits)
  qed
qed

lemma StartDiscovery_entries:
  assumes "fst (StartDiscovery env cfg) = Inr ()"
  shows "SetEth2 b \<in> set (snd (StartDiscovery env cfg)) \<Longrightarrow>
      de_MarshalForkID env (dc_ForkDigest cfg) (dc_ForkDigest cfg) (de_FarFutureEpoch env) = Some b"
    and "SetAttnets a \<in> set (snd (StartDiscovery env cfg)) \<Longrightarrow> a = dc_AttnetsBytes cfg"
  using assms
  by (auto simp: StartDiscovery_def start_crawl_def start_v4_def Let_def split: option.splits if_splits)

text \<open>
  C33: two probes for the same subnets find each other.  If decoding a fork record gives back the
  digest that was encoded, a node that carries the record entries set at start-up passes the fork
  filter of every probe on the same fork, and the subnet filter of exactly those probes it shares an
  attestation subnet with.
\<close>

theorem advertised_record_passes_filters:
  assumes "\<And>d v e b. de_MarshalForkID env d v e = Some b \<Longrightarrow> 4 \<le> length b \<and> el_UnmarshalForkID lib b = Some d"
    and "length (dc_ForkDigest cfg) = 4" and "dc_AttnetsBytes cfg = MakeAttnetsBytes (dc_SubnetIDs cfg)"
    and "fst (StartDiscovery env cfg) = Inr ()"
    and "SetEth2 eth2 \<in> set (snd (StartDiscovery env cfg))" and "en_eth2 n = Some eth2"
    and "SetAttnets attnets \<in> set (snd (StartDiscovery env cfg))" and "en_attnets n = Some attnets"
  shows "matchesForkDigest lib n (dc_ForkDigest cfg) \<and>
     (hasSubnetOverlap n ours \<longleftrightarrow> (\<exists>sid. sid < 64 \<and> sid \<in> set ours \<and> sid \<in> set (dc_SubnetIDs cfg)))"
proof -
  from assms(4,5) have "de_MarshalForkID env (dc_ForkDigest cfg) (dc_ForkDigest cfg) (de_FarFutureEpoch env) = Some eth2"
    by (rule StartDiscovery_entries(1))
  from assms(1) [OF this] assms(2,6) have "matchesForkDigest lib n (dc_ForkDigest cfg)"
    by (simp add: matchesForkDigest_def)
  moreover from assms(4,7) have "attnets = dc_AttnetsBytes cfg" by (rule StartDiscovery_entries(2))
  with assms(3,8) have "en_attnets n = Some (MakeAttnetsBytes (dc_SubnetIDs cfg))" by simp
  ultimately show ?thesis by (simp add: overlap_MakeAttnetsBytes)
qed

definition demo_env :: disc_env where
  "demo_env = \<lparr>de_OpenDB = True, de_MarshalForkID = (\<lambda>d v e. if length d = 4 then Some d else None), de_FarFutureEpoch = -1,
     de_BootstrapNodes = [], de_Parse = (\<lambda>_. None), de_ListenUDP = (\<lambda>_. True), de_ListenV5 = True,
     de_OpenCrawlFile = (\<lambda>_. Some []), de_ListenV4 = True\<rparr>"

lemma demo_start_effects:
  "StartDiscovery demo_env demo_cfg =
     (Inr (), [SetFallbackUDP 9000, SetEth2 [1, 2, 3, 4], SetAttnets (MakeAttnetsBytes [9]), StartV5 9000 [], GoDiscoverV5 None])"
  by (simp add: StartDiscovery_def demo_env_def demo_cfg_def start_crawl_def start_v4_def Let_def)

lemma StartDiscovery_loops_example:
  "\<exists>w. filter is_loop (snd (StartDiscovery demo_env demo_cfg)) = [GoDiscoverV5 w] \<and> w = None"
proof -
  have "fst (StartDiscovery demo_env demo_cfg) = Inr ()" by (simp add: demo_start_effects)
  from StartDiscovery_loops [OF this] show ?thesis by (simp add: demo_cfg_def)
qed

theorem advertised_record_passes_filters_witness:
  "matchesForkDigest demo_lib (demo_node\<lparr>en_attnets := Some (MakeAttnetsBytes [9])\<rparr>) (dc_ForkDigest demo_cfg) \<and>
   (hasSubnetOverlap (demo_node\<lparr>en_attnets := Some (MakeAttnetsBytes [9])\<rparr>) [8, 9] \<longleftrightarrow>
      (\<exists>sid. sid < 64 \<and> sid \<in> set [8, 9] \<and> sid \<in> set (dc_SubnetIDs demo_cfg)))"
  by (rule advertised_record_passes_filters [where env = demo_env and ?eth2.0 = "[1, 2, 3, 4]" and attnets = "MakeAttnetsBytes [9]"])
    (simp_all add: demo_start_effects, simp_all add: demo_env_def demo_lib_def demo_cfg_def demo_node_def split: if_splits)

end
