(* ===== verification/Config_File.thy ===== *)
theory Config_File
  imports Net_IP
begin

text \<open>
  \<^verbatim>\<open>config/config.go\<close>: defaults, validation, port arithmetic and key-file paths.  Go's \<^verbatim>\<open>uint\<close> is 64 bits
  wide, so port arithmetic wraps at that width.  The YAML parser is an argument: given the text and
  the configuration with its defaults, it returns the filled configuration or fails.  The model of
  \<^verbatim>\<open>filepath.Join\<close> and \<^verbatim>\<open>filepath.Clean\<close> (on Unix) is the rewriting by components their documentation
  describes.
\<close>

section \<open>Paths\<close>

fun split_char :: "char \<Rightarrow> string \<Rightarrow> string list" where
  "split_char x [] = [[]]"
| "split_char x (c # cs) =
     (if c = x then [] # split_char x cs
      else (case split_char x cs of [] \<Rightarrow> [[c]] | h # t \<Rightarrow> (c # h) # t))"

text \<open>One component: drop empty and \<^verbatim>\<open>.\<close>, let \<^verbatim>\<open>..\<close> remove its predecessor; \<^verbatim>\<open>..\<close> at the root vanishes.\<close>

definition clean_step :: "bool \<Rightarrow> string list \<Rightarrow> string \<Rightarrow> string list" where
  "clean_step rooted out c =
     (if c = '''' \<or> c = ''.'' then out
      else if c = ''..'' then
        (if out \<noteq> [] \<and> last out \<noteq> ''..'' then butlast out else if rooted then out else out @ [c])
      else out @ [c])"

definition path_Clean :: "string \<Rightarrow> string" where
  "path_Clean p =
     (let rooted = prefix ''/'' p;
          out = foldl (clean_step rooted) [] (split_char CHR ''/'' p)
      in if rooted then ''/'' @ join_strings ''/'' out
         else if out = [] then ''.'' else join_strings ''/'' out)"

definition path_Join :: "string \<Rightarrow> string \<Rightarrow> string" where
  "path_Join a b =
     (if a \<noteq> '''' then path_Clean (a @ ''/'' @ b) else if b \<noteq> '''' then path_Clean b else '''')"

section \<open>Configuration\<close>

record InstanceConfig =
  Name :: string
  GossipD :: int
  LogFile :: string
  GossipSubLogFile :: string
  DisableIHave :: bool
  MaxPeers :: int
  QuicOnly :: bool

record Config =
  Mode :: string
  CrawlFile :: string
  KeyDir :: string
  MetricsAddr :: string
  BaseTCPPort :: u64
  BaseQUICPort :: u64
  BaseDiscV5Port :: u64
  DiscV4Port :: u64
  Subnets :: "u64 list"
  ListenBlocks :: bool
  BootstrapFile :: string
  LogLevel :: string
  Instances :: "InstanceConfig list"

datatype config_error =
    ReadConfig
  | ParseConfig
  | BadMode string
  | NoInstances
  | NameRequired
  | DuplicateName string
  | CrawlInstanceCount nat
  | CrawlFileRequired
  | CrawlWithBootstrap
  | LogFileRequired string
  | GossipDNotPositive string
  | ZeroBasePort
  | PortCollision u64 string string

definition TCPPort :: "Config \<Rightarrow> nat \<Rightarrow> u64" where
  "TCPPort c i = BaseTCPPort c + 2 * of_nat i"

definition QUICPort :: "Config \<Rightarrow> nat \<Rightarrow> u64" where
  "QUICPort c i = BaseQUICPort c + 2 * of_nat i"

definition DiscV5Port :: "Config \<Rightarrow> nat \<Rightarrow> u64" where
  "DiscV5Port c i = BaseDiscV5Port c + of_nat i"

text \<open>\<^verbatim>\<open>c.Instances[i]\<close> panics when \<open>i\<close> is out of range.\<close>

definition KeyFile :: "Config \<Rightarrow> nat \<Rightarrow> string res" where
  "KeyFile c i =
     (if i < length (Instances c) then Inr (path_Join (KeyDir c) (Name (Instances c ! i) @ ''.key''))
      else Inl SliceOutOfRange)"

text \<open>The loops of \<^verbatim>\<open>Validate\<close>; \<open>None\<close> is success.\<close>

fun check_names :: "string set \<Rightarrow> InstanceConfig list \<Rightarrow> config_error option" where
  "check_names names [] = None"
| "check_names names (inst # insts) =
     (if Name inst = '''' then Some NameRequired
      else if Name inst \<in> names then Some (DuplicateName (Name inst))
      else check_names (insert (Name inst) names) insts)"

definition check_crawl :: "Config \<Rightarrow> config_error option" where
  "check_crawl c =
     (if length (Instances c) \<noteq> 1 then Some (CrawlInstanceCount (length (Instances c)))
      else if CrawlFile c = '''' then Some CrawlFileRequired
      else if BootstrapFile c \<noteq> '''' then Some CrawlWithBootstrap
      else None)"

fun check_probe :: "InstanceConfig list \<Rightarrow> config_error option" where
  "check_probe [] = None"
| "check_probe (inst # insts) =
     (if LogFile inst = '''' then Some (LogFileRequired (Name inst))
      else if GossipD inst \<le> 0 then Some (GossipDNotPositive (Name inst))
      else check_probe insts)"

definition addPort :: "(u64 \<rightharpoonup> string) \<Rightarrow> u64 \<Rightarrow> string \<Rightarrow> config_error + (u64 \<rightharpoonup> string)" where
  "addPort ports port desc =
     (if port = 0 then Inr ports
      else (case ports port of
              Some existing \<Rightarrow> Inl (PortCollision port existing desc)
            | None \<Rightarrow> Inr (ports(port \<mapsto> desc))))"

fun add_ports :: "(u64 \<rightharpoonup> string) \<Rightarrow> (u64 \<times> string) list \<Rightarrow> config_error + (u64 \<rightharpoonup> string)" where
  "add_ports ports [] = Inr ports"
| "add_ports ports ((port, desc) # ps) =
     (case addPort ports port desc of Inl e \<Rightarrow> Inl e | Inr ports' \<Rightarrow> add_ports ports' ps)"

text \<open>The ports in the order in which they are checked.\<close>

definition all_ports :: "Config \<Rightarrow> (u64 \<times> string) list" where
  "all_ports c =
     concat (map (\<lambda>i. [(TCPPort c i, Name (Instances c ! i) @ ''/tcp''),
                       (QUICPort c i, Name (Instances c ! i) @ ''/quic''),
                       (DiscV5Port c i, Name (Instances c ! i) @ ''/discv5'')]) [0..<length (Instances c)]) @
     [(DiscV4Port c, ''discv4'')]"

definition first_error :: "config_error option \<Rightarrow> config_error option \<Rightarrow> config_error option" where
  "first_error a b = (case a of Some e \<Rightarrow> Some e | None \<Rightarrow> b)"

definition Validate :: "Config \<Rightarrow> config_error option" where
  "Validate c =
     (if Mode c \<noteq> ''probe'' \<and> Mode c \<noteq> ''crawl'' then Some (BadMode (Mode c))
      else if length (Instances c) = 0 then Some NoInstances
      else first_error (check_names {} (Instances c))
          (first_error (if Mode c = ''crawl'' then check_crawl c else None)
          (first_error (if Mode c = ''probe'' then check_probe (Instances c) else None)
          (if length (Instances c) > 1 \<and> (BaseTCPPort c = 0 \<or> BaseQUICPort c = 0 \<or> BaseDiscV5Port c = 0)
           then Some ZeroBasePort
           else (case add_ports Map.empty (all_ports c) of Inl e \<Rightarrow> Some e | Inr _ \<Rightarrow> None)))))"

definition default_config :: Config where
  "default_config = \<lparr>Mode = ''probe'', CrawlFile = '''', KeyDir = '''', MetricsAddr = '':9090'',
     BaseTCPPort = 0, BaseQUICPort = 0, BaseDiscV5Port = 0, DiscV4Port = 0, Subnets = [], ListenBlocks = False,
     BootstrapFile = '''', LogLevel = ''info'', Instances = []\<rparr>"

definition default_max_peers :: "InstanceConfig \<Rightarrow> InstanceConfig" where
  "default_max_peers inst =
     (if MaxPeers inst = 0 \<and> GossipD inst > 0 then inst\<lparr>MaxPeers := wrap64 (10 * GossipD inst)\<rparr> else inst)"

definition Load :: "(string \<Rightarrow> Config \<Rightarrow> Config option) \<Rightarrow> string option \<Rightarrow> config_error + Config" where
  "Load unmarshal data =
     (case data of
        None \<Rightarrow> Inl ReadConfig
      | Some txt \<Rightarrow>
         (case unmarshal txt default_config of
            None \<Rightarrow> Inl ParseConfig
          | Some cfg \<Rightarrow>
             (let cfg = cfg\<lparr>Instances := map default_max_peers (Instances cfg)\<rparr>
              in case Validate cfg of Some e \<Rightarrow> Inl e | None \<Rightarrow> Inr cfg)))"

section \<open>What validation accepts\<close>

lemma check_names_None:
  "check_names names insts = None \<longleftrightarrow>
     '''' \<notin> Name ` set insts \<and> distinct (map Name insts) \<and> names \<inter> Name ` set insts = {}"
  by (induction insts arbitrary: names) auto

lemma check_probe_None: "check_probe insts = None \<longleftrightarrow> (\<forall>inst \<in> set insts. LogFile inst \<noteq> '''' \<and> 0 < GossipD inst)"
  by (induction insts) auto

lemma add_ports_Inr:
  "(\<exists>m. add_ports ports ps = Inr m) \<longleftrightarrow>
     distinct (filter (\<lambda>p. p \<noteq> 0) (map fst ps)) \<and> dom ports \<inter> set (filter (\<lambda>p. p \<noteq> 0) (map fst ps)) = {}"
proof (induction ps arbitrary: ports)
  case (Cons a ps)
  obtain port desc where a: "a = (port, desc)" by (cases a)
  show ?case
  proof (cases "port = 0 \<or> port \<in> dom ports")
    case True
    with Cons a show ?thesis by (auto simp: addPort_def)
  next
    case False
    then have "addPort ports port desc = Inr (ports(port \<mapsto> desc))" by (auto simp: addPort_def domIff)
    then have "(\<exists>m. add_ports ports (a # ps) = Inr m) \<longleftrightarrow> (\<exists>m. add_ports (ports(port \<mapsto> desc)) ps = Inr m)"
      by (simp add: a)
    also have "\<dots> \<longleftrightarrow> distinct (filter (\<lambda>p. p \<noteq> 0) (map fst ps)) \<and>
        insert port (dom ports) \<inter> set (filter (\<lambda>p. p \<noteq> 0) (map fst ps)) = {}"
      unfolding Cons.IH by simp
    also have "\<dots> \<longleftrightarrow> distinct (filter (\<lambda>p. p \<noteq> 0) (map fst (a # ps))) \<and>
        dom ports \<inter> set (filter (\<lambda>p. p \<noteq> 0) (map fst (a # ps))) = {}"
      using False by (simp add: a) blast
    finally show ?thesis .
  qed
qed simp

lemma sum_case_None: "(case r of Inl e \<Rightarrow> Some e | Inr _ \<Rightarrow> None) = None \<longleftrightarrow> (\<exists>m. r = Inr m)"
  by (cases r) simp_all

lemma first_error_None [simp]: "first_error a b = None \<longleftrightarrow> a = None \<and> b = None"
  by (auto simp: first_error_def split: option.splits)

text \<open>
  C23: validation accepts exactly the consistent configurations: a known mode; at least one instance,
  all with different non-empty names; in crawl mode one instance, an output file and no bootstrap
  file; in probe mode a log file and a positive mesh degree everywhere; base ports set when there
  are several instances; and no two of the non-zero ports of all instances and discv4 equal.
\<close>

theorem Validate_iff_consistent:
  "Validate c = None \<longleftrightarrow>
     (Mode c = ''probe'' \<or> Mode c = ''crawl'') \<and> Instances c \<noteq> [] \<and>
     '''' \<notin> Name ` set (Instances c) \<and> distinct (map Name (Instances c)) \<and>
     (Mode c = ''crawl'' \<longrightarrow> length (Instances c) = 1 \<and> CrawlFile c \<noteq> '''' \<and> BootstrapFile c = '''') \<and>
     (Mode c = ''probe'' \<longrightarrow> (\<forall>inst \<in> set (Instances c). LogFile inst \<noteq> '''' \<and> 0 < GossipD inst)) \<and>
     (1 < length (Instances c) \<longrightarrow> BaseTCPPort c \<noteq> 0 \<and> BaseQUICPort c \<noteq> 0 \<and> BaseDiscV5Port c \<noteq> 0) \<and>
     distinct (filter (\<lambda>p. p \<noteq> 0) (map fst (all_ports c)))"
  by (auto simp: Validate_def check_names_None check_probe_None check_crawl_def sum_case_None add_ports_Inr)

theorem Validate_iff_consistent_witness:
  "Validate (default_config\<lparr>Instances := [\<lparr>Name = ''a'', GossipD = 8, LogFile = ''a.log'', GossipSubLogFile = '''',
     DisableIHave = False, MaxPeers = 80, QuicOnly = False\<rparr>], BaseTCPPort := 13000, BaseQUICPort := 13001\<rparr>) = None"
  unfolding Validate_iff_consistent
  by (simp add: default_config_def all_ports_def TCPPort_def QUICPort_def DiscV5Port_def)

lemma default_max_peers_nonzero:
  assumes "0 < GossipD inst" and "GossipD inst < 2 ^ 63"
  shows "MaxPeers (default_max_peers inst) \<noteq> 0"
proof -
  have "wrap64 (10 * d) \<noteq> 0" if "0 < d" and "d < 2 ^ 63" for d
  proof
    assume "wrap64 (10 * d) = 0"
    then have "(10 * d + 2 ^ 63) mod 2 ^ 64 = (2 ^ 63 :: int) mod 2 ^ 64" by (simp add: wrap64_def)
    then have "2 ^ 64 dvd 10 * d" unfolding mod_eq_dvd_iff by simp
    then obtain k where k: "10 * d = 18446744073709551616 * k" by (auto elim: dvdE)
    with that have "0 < k" and "k < 5" by simp_all
    then consider "k = 1" | "k = 2" | "k = 3" | "k = 4" by linarith
    moreover have "(10 * d) mod 10 = (18446744073709551616 * k) mod 10" by (simp only: k)
    ultimately show False by cases simp_all
  qed
  with assms show ?thesis by (simp add: default_max_peers_def)
qed

text \<open>
  C39: a loaded configuration is valid and has its defaults.  Whatever the parser returns, a
  configuration that \<^verbatim>\<open>Load\<close> accepts passes \<^verbatim>\<open>Validate\<close>; it differs from the parsed one only in peer
  limits left at zero, which become ten times the mesh degree when that fits; and in probe mode
  no instance is left with the limit zero, which means no limit.
\<close>

theorem Load_valid_with_defaults:
  assumes "Load unmarshal (Some txt) = Inr c" and "\<forall>inst \<in> set (Instances c). in_int64 (GossipD inst)"
  shows "Validate c = None \<and>
     (\<exists>raw. unmarshal txt default_config = Some raw \<and>
        c = raw\<lparr>Instances := map (\<lambda>inst. if MaxPeers inst = 0 \<and> 0 < GossipD inst
                                then inst\<lparr>MaxPeers := wrap64 (10 * GossipD inst)\<rparr> else inst) (Instances raw)\<rparr>) \<and>
     (Mode c = ''probe'' \<longrightarrow> 0 \<notin> MaxPeers ` set (Instances c))"
proof -
  from assms(1) obtain raw where raw: "unmarshal txt default_config = Some raw"
    and c: "c = raw\<lparr>Instances := map default_max_peers (Instances raw)\<rparr>" and v: "Validate c = None"
    by (auto simp: Load_def Let_def split: option.splits)
  have "MaxPeers inst \<noteq> 0" if "Mode c = ''probe''" and "inst \<in> set (Instances c)" for inst
  proof -
    from that c obtain r where r: "inst = default_max_peers r" by auto
    have "check_probe (Instances c) = None"
      using v that(1) by (auto simp: Validate_def split: if_splits)
    with that(2) have "0 < GossipD inst" by (simp add: check_probe_None)
    moreover from assms(2) that(2) have "GossipD inst < 2 ^ 63" by (auto simp: in_int64_def)
    moreover have "GossipD inst = GossipD r" by (simp add: r default_max_peers_def)
    ultimately show ?thesis unfolding r by (intro default_max_peers_nonzero) simp_all
  qed
  moreover have "default_max_peers = (\<lambda>inst. if MaxPeers inst = 0 \<and> 0 < GossipD inst
      then inst\<lparr>MaxPeers := wrap64 (10 * GossipD inst)\<rparr> else inst)"
    by (simp add: default_max_peers_def fun_eq_iff)
  ultimately show ?thesis using raw c v by (intro conjI exI [of _ raw]) auto
qed

definition demo_inst :: "string \<Rightarrow> InstanceConfig" where
  "demo_inst name = \<lparr>Name = name, GossipD = 8, LogFile = ''a.log'', GossipSubLogFile = '''', DisableIHave = False,
     MaxPeers = 0, QuicOnly = False\<rparr>"

theorem Load_valid_with_defaults_witness:
  "0 \<notin> MaxPeers ` set (Instances (default_config\<lparr>Instances := map default_max_peers [demo_inst ''a'']\<rparr>))"
proof -
  let ?c = "default_config\<lparr>Instances := map default_max_peers [demo_inst ''a'']\<rparr>"
  have l: "Load (\<lambda>_ cfg. Some (cfg\<lparr>Instances := [demo_inst ''a'']\<rparr>)) (Some '''') = Inr ?c"
    by (simp add: Load_def Validate_def default_config_def default_max_peers_def demo_inst_def all_ports_def
        TCPPort_def QUICPort_def DiscV5Port_def addPort_def first_error_def)
  have "\<forall>inst \<in> set (Instances ?c). in_int64 (GossipD inst)"
    by (simp add: default_max_peers_def demo_inst_def in_int64_def)
  from Load_valid_with_defaults [OF l this] show ?thesis by (auto simp: default_config_def)
qed

section \<open>Key files\<close>

lemma split_char_ne: "split_char x s \<noteq> []"
  by (induction s) (auto split: list.splits)

lemma split_char_absent: "x \<notin> set s \<Longrightarrow> split_char x s = [s]"
  by (induction s) auto

lemma split_char_append: "split_char x (a @ [x] @ b) = split_char x a @ split_char x b"
proof (induction a)
  case (Cons c a)
  then show ?case using split_char_ne [of x a] by (auto split: list.splits simp: append_eq_Cons_conv)
qed simp

lemma clean_step_plain: "c \<notin> {'''', ''.'', ''..''} \<Longrightarrow> clean_step rooted out c = out @ [c]"
  by (simp add: clean_step_def)

lemma join_strings_snoc:
  "join_strings sep (xs @ [c]) = (if xs = [] then c else join_strings sep xs @ sep @ c)"
proof (induction sep xs rule: join_strings.induct)
  case (3 sep s s' ss)
  then show ?case by simp
qed simp_all

text \<open>The last component of a cleaned path is the file name, unchanged.\<close>

lemma path_Join_file:
  "\<exists>dir. \<forall>c'. CHR ''/'' \<notin> set c' \<longrightarrow> c' \<notin> {'''', ''.'', ''..''} \<longrightarrow> path_Join d c' = dir @ c'"
proof (cases "d = ''''")
  case True
  have "path_Join d c' = '''' @ c'" if "CHR ''/'' \<notin> set c'" and "c' \<notin> {'''', ''.'', ''..''}" for c'
    using that True by (cases c') (auto simp: path_Join_def path_Clean_def split_char_absent clean_step_plain Let_def)
  then show ?thesis by blast
next
  case False
  let ?rooted = "prefix ''/'' d"
  let ?out = "foldl (clean_step ?rooted) [] (split_char CHR ''/'' d)"
  let ?pre = "(if ?rooted then ''/'' else '''') @ (if ?out = [] then '''' else join_strings ''/'' ?out @ ''/'')"
  have "path_Join d c' = ?pre @ c'" if "CHR ''/'' \<notin> set c'" and "c' \<notin> {'''', ''.'', ''..''}" for c'
  proof -
    have "prefix ''/'' (d @ ''/'' @ c') = ?rooted" using False by (cases d) auto
    moreover have "split_char CHR ''/'' (d @ ''/'' @ c') = split_char CHR ''/'' d @ [c']"
      using split_char_append [of "CHR ''/''" d c'] that by (simp add: split_char_absent)
    ultimately show ?thesis
      using that False by (simp add: path_Join_def path_Clean_def Let_def clean_step_plain join_strings_snoc)
  qed
  then show ?thesis by blast
qed

text \<open>
  Instances with plain names have separate keys.  In an accepted configuration, two different
  instances whose names contain no slash have different key files, so they cannot overwrite or share
  each other's identity.
\<close>

lemma KeyFile_separate:
  assumes "Validate c = None" and "i < length (Instances c)" and "j < length (Instances c)" and "i \<noteq> j"
    and "CHR ''/'' \<notin> set (Name (Instances c ! i))" and "CHR ''/'' \<notin> set (Name (Instances c ! j))"
  shows "KeyFile c i \<noteq> KeyFile c j"
proof -
  let ?n = "\<lambda>i. Name (Instances c ! i)"
  have "check_names {} (Instances c) = None" using assms(1) by (auto simp: Validate_def split: if_splits)
  then have "distinct (map Name (Instances c))" by (simp add: check_names_None)
  with assms(2-4) have ne: "?n i \<noteq> ?n j" by (metis nth_eq_iff_index_eq length_map nth_map)
  have plain: "x @ ''.key'' \<notin> {'''', ''.'', ''..''}" for x by (cases x; cases "tl x") auto
  have slash: "CHR ''/'' \<notin> set (x @ ''.key'')" if "CHR ''/'' \<notin> set x" for x using that by auto
  obtain dir where dir: "\<forall>c'. CHR ''/'' \<notin> set c' \<longrightarrow> c' \<notin> {'''', ''.'', ''..''} \<longrightarrow> path_Join (KeyDir c) c' = dir @ c'"
    using path_Join_file [of "KeyDir c"] by blast
  from dir [rule_format, OF slash [OF assms(5)] plain] dir [rule_format, OF slash [OF assms(6)] plain] ne assms(2,3)
  show ?thesis by (simp add: KeyFile_def)
qed

definition demo_config :: "string \<Rightarrow> string \<Rightarrow> Config" where
  "demo_config a b = default_config\<lparr>Instances := [demo_inst a, demo_inst b], KeyDir := ''keys'',
     BaseTCPPort := 13000, BaseQUICPort := 13001, BaseDiscV5Port := 12000\<rparr>"

lemma demo_config_valid: "a \<noteq> b \<Longrightarrow> a \<noteq> '''' \<Longrightarrow> b \<noteq> '''' \<Longrightarrow> Validate (demo_config a b) = None"
  by (simp add: demo_config_def default_config_def Validate_def demo_inst_def all_ports_def TCPPort_def QUICPort_def
      DiscV5Port_def addPort_def first_error_def)

lemma KeyFile_separate_example:
  "KeyFile (demo_config ''a'' ''b'') 0 \<noteq> KeyFile (demo_config ''a'' ''b'') 1"
  by (rule KeyFile_separate) (simp_all add: demo_config_valid, simp_all add: demo_config_def demo_inst_def)

text \<open>
  Names with path elements can share a key file.  The check for unique names compares the names, not
  the files they stand for: a configuration with the instances \<^verbatim>\<open>a\<close> and \<^verbatim>\<open>x/../a\<close> is accepted, and the
  key file of both instances is \<^verbatim>\<open>keys/a.key\<close>.
\<close>

lemma distinct_names_one_key_file:
  "Validate (demo_config ''a'' ''x/../a'') = None \<and>
   KeyFile (demo_config ''a'' ''x/../a'') 0 = Inr ''keys/a.key'' \<and>
   KeyFile (demo_config ''a'' ''x/../a'') 1 = Inr ''keys/a.key''"
  by (simp add: demo_config_valid)
    (simp add: demo_config_def demo_inst_def KeyFile_def path_Join_def path_Clean_def clean_step_def Let_def)

end
