(* ===== verification/Host_Keys.thy ===== *)
theory Host_Keys
  imports Go_Prelude
begin

text \<open>
  \<^verbatim>\<open>node/host.go\<close>: the key of an instance, kept in a file, and the options of its libp2p host.  The file
  system is a map from paths to contents, with the paths that cannot be read or written as
  arguments; the cryptographic library is a record of functions (\<open>'k\<close> is the type of private keys).
\<close>

section \<open>Keys\<close>

record 'k crypto_lib =
  cl_ToECDSA :: "bytes \<Rightarrow> 'k option"
  cl_FromECDSA :: "'k \<Rightarrow> bytes"

datatype key_error = DecodeKeyHex hex_error | InvalidKey | ReadKeyFile | GenerateKey | SaveKey

record file_system =
  fs_files :: "string \<rightharpoonup> bytes"
  fs_unreadable :: "string set"
  fs_unwritable :: "string set"

text \<open>\<^verbatim>\<open>os.ReadFile\<close>: the contents, that the file does not exist, or another error.\<close>

datatype read_result = ReadOk bytes | ReadNotExist | ReadError

definition ReadFile :: "file_system \<Rightarrow> string \<Rightarrow> read_result" where
  "ReadFile fs path =
     (if path \<in> fs_unreadable fs then ReadError
      else (case fs_files fs path of None \<Rightarrow> ReadNotExist | Some c \<Rightarrow> ReadOk c))"

definition WriteFile :: "file_system \<Rightarrow> string \<Rightarrow> bytes \<Rightarrow> file_system option" where
  "WriteFile fs path c = (if path \<in> fs_unwritable fs then None else Some (fs\<lparr>fs_files := (fs_files fs)(path \<mapsto> c)\<rparr>))"

definition parse_key :: "'k crypto_lib \<Rightarrow> bytes \<Rightarrow> key_error + 'k" where
  "parse_key cl raw = (case cl_ToECDSA cl raw of None \<Rightarrow> Inl InvalidKey | Some k \<Rightarrow> Inr k)"

definition load_key :: "'k crypto_lib \<Rightarrow> bytes \<Rightarrow> key_error + 'k" where
  "load_key cl src =
     (if length src = 32 then parse_key cl src
      else (case hex_Decode (bytes_str src) of Inl e \<Rightarrow> Inl (DecodeKeyHex e) | Inr raw \<Rightarrow> parse_key cl raw))"

text \<open>\<open>gen\<close> is what \<^verbatim>\<open>ecdsa.GenerateKey\<close> would return.\<close>

definition LoadOrGenerateKey ::
  "'k crypto_lib \<Rightarrow> 'k option \<Rightarrow> file_system \<Rightarrow> string \<Rightarrow> (key_error + 'k) \<times> file_system" where
  "LoadOrGenerateKey cl gen fs keyFile =
     (let generate =
            (case gen of
               None \<Rightarrow> (Inl GenerateKey, fs)
             | Some privKey \<Rightarrow>
                 if keyFile \<noteq> '''' then
                   (case WriteFile fs keyFile (str_bytes (EncodeToString (cl_FromECDSA cl privKey))) of
                      None \<Rightarrow> (Inl SaveKey, fs)
                    | Some fs' \<Rightarrow> (Inr privKey, fs'))
                 else (Inr privKey, fs))
      in if keyFile \<noteq> '''' then
           (case ReadFile fs keyFile of
              ReadOk src \<Rightarrow> (load_key cl src, fs)
            | ReadError \<Rightarrow> (Inl ReadKeyFile, fs)
            | ReadNotExist \<Rightarrow> generate)
         else generate)"

section \<open>Hosts\<close>

datatype 'g host_option =
    Identity bytes
  | SecurityNoise
  | DisableRelay
  | NullResourceManager
  | NullConnMgr
  | NoUDPBlackHole
  | NoIPv6BlackHole
  | ConnectionGater 'g
  | TransportTCP
  | TransportQUIC
  | ListenAddrStrings "string list"
  | MuxerYamux
  | MuxerMplex

definition host_options :: "u64 \<Rightarrow> u64 \<Rightarrow> bytes \<Rightarrow> bool \<Rightarrow> 'g option \<Rightarrow> 'g host_option list" where
  "host_options tcpPort quicPort libp2pKey quicOnly gater =
     [Identity libp2pKey, SecurityNoise, DisableRelay, NullResourceManager, NullConnMgr, NoUDPBlackHole, NoIPv6BlackHole] @
     (case gater of None \<Rightarrow> [] | Some g \<Rightarrow> [ConnectionGater g]) @
     (if quicOnly
      then [TransportQUIC, ListenAddrStrings [''/ip4/0.0.0.0/udp/'' @ dec_u64 quicPort @ ''/quic-v1'']]
      else [ListenAddrStrings [''/ip4/0.0.0.0/tcp/'' @ dec_u64 tcpPort,
                               ''/ip4/0.0.0.0/udp/'' @ dec_u64 quicPort @ ''/quic-v1''],
            TransportTCP, TransportQUIC, MuxerYamux, MuxerMplex])"

datatype host_error = HostKey key_error | ConvertKey | CreateHost

text \<open>
  \<open>unmarshal\<close> is \<^verbatim>\<open>crypto.UnmarshalSecp256k1PrivateKey\<close> on the key's bytes, \<open>new\<close> is \<^verbatim>\<open>libp2p.New\<close>.
\<close>

definition NewHostWithKey ::
  "'k crypto_lib \<Rightarrow> (bytes \<Rightarrow> bytes option) \<Rightarrow> ('g host_option list \<Rightarrow> 'h option) \<Rightarrow> u64 \<Rightarrow> u64 \<Rightarrow> 'k \<Rightarrow> bool \<Rightarrow> 'g option \<Rightarrow> host_error + 'h" where
  "NewHostWithKey cl unmarshal new tcpPort quicPort privKey quicOnly gater =
     (case unmarshal (cl_FromECDSA cl privKey) of
        None \<Rightarrow> Inl ConvertKey
      | Some libp2pKey \<Rightarrow>
         (case new (host_options tcpPort quicPort libp2pKey quicOnly gater) of
            None \<Rightarrow> Inl CreateHost
          | Some h \<Rightarrow> Inr h))"

definition NewHost ::
  "'k crypto_lib \<Rightarrow> (bytes \<Rightarrow> bytes option) \<Rightarrow> ('g host_option list \<Rightarrow> 'h option) \<Rightarrow> 'k option \<Rightarrow> file_system \<Rightarrow> u64 \<Rightarrow> u64 \<Rightarrow> string \<Rightarrow> bool
   \<Rightarrow> (host_error + 'h \<times> 'k) \<times> file_system" where
  "NewHost cl unmarshal new gen fs tcpPort quicPort keyFile quicOnly =
     (case LoadOrGenerateKey cl gen fs keyFile of
        (Inl e, fs') \<Rightarrow> (Inl (HostKey e), fs')
      | (Inr privKey, fs') \<Rightarrow>
         (case NewHostWithKey cl unmarshal new tcpPort quicPort privKey quicOnly None of
            Inl e \<Rightarrow> (Inl e, fs')
          | Inr h \<Rightarrow> (Inr (h, privKey), fs')))"

section \<open>Properties\<close>

text \<open>
  C29: an instance keeps its identity.  If keys survive conversion to their 32 bytes and back, then a
  key that was loaded or generated under a file name is loaded again from the file system it left
  behind, whatever key would be generated then; and loading does not touch other files.
\<close>

theorem key_persists:
  assumes "\<And>k. cl_ToECDSA cl (cl_FromECDSA cl k) = Some k" and "\<And>k. length (cl_FromECDSA cl k) = 32"
    and "keyFile \<noteq> ''''"
    and "LoadOrGenerateKey cl gen fs keyFile = (Inr k, fs')"
  shows "LoadOrGenerateKey cl gen' fs' keyFile = (Inr k, fs') \<and>
     (\<forall>path. path \<noteq> keyFile \<longrightarrow> fs_files fs' path = fs_files fs path)"
proof (cases "ReadFile fs keyFile")
  case (ReadOk src)
  with assms(3,4) show ?thesis by (auto simp: LoadOrGenerateKey_def)
next
  case ReadError
  with assms(3,4) show ?thesis by (simp add: LoadOrGenerateKey_def)
next
  case ReadNotExist
  let ?c = "str_bytes (EncodeToString (cl_FromECDSA cl k))"
  from ReadNotExist assms(3,4) have fs': "fs' = fs\<lparr>fs_files := (fs_files fs)(keyFile \<mapsto> ?c)\<rparr>"
    by (auto simp: LoadOrGenerateKey_def WriteFile_def Let_def split: option.splits if_splits)
  have "keyFile \<notin> fs_unreadable fs" using ReadNotExist by (auto simp: ReadFile_def split: if_splits)
  then have "ReadFile fs' keyFile = ReadOk ?c" by (simp add: ReadFile_def fs')
  moreover have "load_key cl ?c = Inr k"
    using assms(1,2) by (simp add: load_key_def parse_key_def)
  ultimately show ?thesis using assms(3) by (simp add: LoadOrGenerateKey_def fs')
qed

definition demo_crypto :: "u8 crypto_lib" where
  "demo_crypto = \<lparr>cl_ToECDSA = (\<lambda>raw. case raw of [] \<Rightarrow> None | b # _ \<Rightarrow> Some b), cl_FromECDSA = replicate 32\<rparr>"

definition demo_fs :: file_system where
  "demo_fs = \<lparr>fs_files = Map.empty, fs_unreadable = {}, fs_unwritable = {}\<rparr>"

theorem key_persists_witness:
  "LoadOrGenerateKey demo_crypto (Some 9) (snd (LoadOrGenerateKey demo_crypto (Some 7) demo_fs ''a.key'')) ''a.key'' =
     (Inr 7, snd (LoadOrGenerateKey demo_crypto (Some 7) demo_fs ''a.key'')) \<and>
   fs_files (snd (LoadOrGenerateKey demo_crypto (Some 7) demo_fs ''a.key'')) ''b.key'' = None"
proof -
  have "LoadOrGenerateKey demo_crypto (Some 7) demo_fs ''a.key'' =
      (Inr 7, snd (LoadOrGenerateKey demo_crypto (Some 7) demo_fs ''a.key''))"
    by (simp add: LoadOrGenerateKey_def ReadFile_def WriteFile_def demo_fs_def)
  from key_persists [where cl = demo_crypto, OF _ _ _ this, of "Some 9"]
  show ?thesis by (simp add: demo_crypto_def demo_fs_def numeral_eq_Suc)
qed

text \<open>
  A QUIC-only host speaks no TCP, and the gater is installed when there is one.  The options of a
  QUIC-only host contain no TCP transport, no stream muxer and exactly the one QUIC listen address;
  other hosts listen on both ports; and the options contain a gater iff one is given.
\<close>

lemma host_transports:
  "(TransportTCP \<in> set (host_options tp qp key quicOnly gater) \<longleftrightarrow> \<not> quicOnly) \<and>
   TransportQUIC \<in> set (host_options tp qp key quicOnly gater) \<and>
   (ListenAddrStrings as \<in> set (host_options tp qp key quicOnly gater) \<longleftrightarrow>
      as = (if quicOnly then [] else [''/ip4/0.0.0.0/tcp/'' @ dec_u64 tp]) @ [''/ip4/0.0.0.0/udp/'' @ dec_u64 qp @ ''/quic-v1'']) \<and>
   (ConnectionGater g \<in> set (host_options tp qp key quicOnly gater) \<longleftrightarrow> gater = Some g)"
  by (auto simp: host_options_def split: option.splits)

end
