(* ===== verification/Metric_Registry.thy ===== *)
theory Metric_Registry
  imports Complex_Main Go_Prelude
begin

text \<open>
  \<^verbatim>\<open>metrics/metrics.go\<close>: the Prometheus collectors and their per-instance views.  Prometheus is outside
  the repository; what the program relies on is documented: creating a histogram panics unless its
  buckets increase strictly, registering panics on a name used twice, currying panics on a label the
  collector does not have, and label values must match the labels that are left in number.  Of HTTP
  serving, the routes and the two ways \<^verbatim>\<open>Serve\<close> goes on are modelled.
\<close>

section \<open>Collectors\<close>

datatype metric_kind = Histogram "real list" | Counter | Gauge

record collector =
  co_Name :: string
  co_kind :: metric_kind
  co_labels :: "string list"

definition latencyBuckets :: "real list" where
  "latencyBuckets = [-1, -0.5, -0.1, 0, 0.1, 0.25, 0.5, 1, 2, 3, 4, 5, 6, 8, 10, 12]"

definition blockBuckets :: "real list" where
  "blockBuckets = [0.1, 0.25, 0.5, 1, 2, 3, 4, 5, 6, 8, 10, 12]"

definition attestationLatency :: collector where
  "attestationLatency = \<lparr>co_Name = ''beaconprobe_attestation_latency_seconds'', co_kind = Histogram latencyBuckets,
     co_labels = [''probe'', ''subnet_id'']\<rparr>"
definition attestationLatencyFromFourSeconds :: collector where
  "attestationLatencyFromFourSeconds = \<lparr>co_Name = ''beaconprobe_attestation_latency_from_4s_seconds'',
     co_kind = Histogram latencyBuckets, co_labels = [''probe'', ''subnet_id'']\<rparr>"
definition attestationArrivalInSlot :: collector where
  "attestationArrivalInSlot = \<lparr>co_Name = ''beaconprobe_attestation_arrival_in_slot_seconds'',
     co_kind = Histogram latencyBuckets, co_labels = [''probe'', ''subnet_id'']\<rparr>"
definition attestationsReceived :: collector where
  "attestationsReceived = \<lparr>co_Name = ''beaconprobe_attestations_received_total'', co_kind = Counter,
     co_labels = [''probe'', ''subnet_id'']\<rparr>"
definition lateAttestations :: collector where
  "lateAttestations = \<lparr>co_Name = ''beaconprobe_late_attestations_total'', co_kind = Counter,
     co_labels = [''probe'', ''subnet_id'']\<rparr>"
definition blockArrivalInSlot :: collector where
  "blockArrivalInSlot = \<lparr>co_Name = ''beaconprobe_block_arrival_in_slot_seconds'', co_kind = Histogram blockBuckets,
     co_labels = [''probe'']\<rparr>"
definition blocksReceived :: collector where
  "blocksReceived = \<lparr>co_Name = ''beaconprobe_blocks_received_total'', co_kind = Counter, co_labels = [''probe'']\<rparr>"
definition connectedPeers :: collector where
  "connectedPeers = \<lparr>co_Name = ''beaconprobe_connected_peers'', co_kind = Gauge, co_labels = [''probe'']\<rparr>"
definition quicPeers :: collector where
  "quicPeers = \<lparr>co_Name = ''beaconprobe_quic_peers'', co_kind = Gauge, co_labels = [''probe'']\<rparr>"
definition tcpPeers :: collector where
  "tcpPeers = \<lparr>co_Name = ''beaconprobe_tcp_peers'', co_kind = Gauge, co_labels = [''probe'']\<rparr>"
definition peerUserAgents :: collector where
  "peerUserAgents = \<lparr>co_Name = ''beaconprobe_peer_user_agents'', co_kind = Gauge, co_labels = [''probe'', ''user_agent'']\<rparr>"
definition dialAttempts :: collector where
  "dialAttempts = \<lparr>co_Name = ''beaconprobe_dial_attempts_total'', co_kind = Counter, co_labels = [''probe'']\<rparr>"
definition dialBackoffs :: collector where
  "dialBackoffs = \<lparr>co_Name = ''beaconprobe_dial_backoffs_total'', co_kind = Counter, co_labels = [''probe'']\<rparr>"
definition DiscoveryPeersFound :: collector where
  "DiscoveryPeersFound = \<lparr>co_Name = ''beaconprobe_discovery_peers_found_total'', co_kind = Counter, co_labels = []\<rparr>"

definition registered :: "collector list" where
  "registered = [attestationLatency, attestationLatencyFromFourSeconds, attestationArrivalInSlot, attestationsReceived,
     lateAttestations, blockArrivalInSlot, blocksReceived, connectedPeers, quicPeers, tcpPeers, peerUserAgents,
     dialAttempts, dialBackoffs, DiscoveryPeersFound]"

lemmas collector_defs = attestationLatency_def attestationLatencyFromFourSeconds_def attestationArrivalInSlot_def
  attestationsReceived_def lateAttestations_def blockArrivalInSlot_def blocksReceived_def connectedPeers_def
  quicPeers_def tcpPeers_def peerUserAgents_def dialAttempts_def dialBackoffs_def DiscoveryPeersFound_def

text \<open>Creation of a collector, and \<^verbatim>\<open>MustRegister\<close> of several: the names registered, or the panic.\<close>

definition new_collector :: "collector \<Rightarrow> collector res" where
  "new_collector c =
     (case co_kind c of
        Histogram bs \<Rightarrow> if sorted_wrt (<) bs then Inr c else Inl (ExplicitPanic ''histogram buckets'')
      | _ \<Rightarrow> Inr c)"

fun MustRegister :: "string list \<Rightarrow> collector list \<Rightarrow> string list res" where
  "MustRegister reg [] = Inr reg"
| "MustRegister reg (c # cs) =
     (if co_Name c \<in> set reg then Inl (ExplicitPanic ''duplicate metrics collector registration attempted'')
      else res_bind (new_collector c) (\<lambda>c. MustRegister (reg @ [co_Name c]) cs))"

definition init_metrics :: "string list res" where
  "init_metrics = MustRegister [] registered"

section \<open>Views\<close>

text \<open>A view: the collector's name, the labels already fixed, and the labels a caller still has to give.\<close>

record metric_view =
  mv_Name :: string
  mv_fixed :: "(string \<times> string) list"
  mv_open :: "string list"

definition MustCurryWith :: "collector \<Rightarrow> string \<times> string \<Rightarrow> metric_view res" where
  "MustCurryWith c lab =
     (if fst lab \<in> set (co_labels c)
      then Inr \<lparr>mv_Name = co_Name c, mv_fixed = [lab], mv_open = filter (\<lambda>l. l \<noteq> fst lab) (co_labels c)\<rparr>
      else Inl (ExplicitPanic ''unknown label''))"

definition WithLabelValues :: "collector \<Rightarrow> string list \<Rightarrow> metric_view res" where
  "WithLabelValues c vals =
     (if length vals = length (co_labels c)
      then Inr \<lparr>mv_Name = co_Name c, mv_fixed = zip (co_labels c) vals, mv_open = []\<rparr>
      else Inl (ExplicitPanic ''inconsistent label cardinality''))"

text \<open>The per-instance views.\<close>

record Metrics =
  m_AttestationLatency :: metric_view
  m_AttestationLatencyFromFourSeconds :: metric_view
  m_AttestationArrivalInSlot :: metric_view
  m_AttestationsReceived :: metric_view
  m_LateAttestations :: metric_view
  m_BlockArrivalInSlot :: metric_view
  m_BlocksReceived :: metric_view
  m_ConnectedPeers :: metric_view
  m_QUICPeers :: metric_view
  m_TCPPeers :: metric_view
  m_PeerUserAgents :: metric_view
  m_DialAttempts :: metric_view
  m_DialBackoffs :: metric_view

definition NewMetrics :: "string \<Rightarrow> Metrics res" where
  "NewMetrics probeName =
     (let probeLabel = (''probe'', probeName) in
      res_bind (MustCurryWith attestationLatency probeLabel) (\<lambda>v1.
      res_bind (MustCurryWith attestationLatencyFromFourSeconds probeLabel) (\<lambda>v2.
      res_bind (MustCurryWith attestationArrivalInSlot probeLabel) (\<lambda>v3.
      res_bind (MustCurryWith attestationsReceived probeLabel) (\<lambda>v4.
      res_bind (MustCurryWith lateAttestations probeLabel) (\<lambda>v5.
      res_bind (WithLabelValues blockArrivalInSlot [probeName]) (\<lambda>v6.
      res_bind (WithLabelValues blocksReceived [probeName]) (\<lambda>v7.
      res_bind (WithLabelValues connectedPeers [probeName]) (\<lambda>v8.
      res_bind (WithLabelValues quicPeers [probeName]) (\<lambda>v9.
      res_bind (WithLabelValues tcpPeers [probeName]) (\<lambda>v10.
      res_bind (MustCurryWith peerUserAgents probeLabel) (\<lambda>v11.
      res_bind (WithLabelValues dialAttempts [probeName]) (\<lambda>v12.
      res_bind (WithLabelValues dialBackoffs [probeName]) (\<lambda>v13.
      Inr \<lparr>m_AttestationLatency = v1, m_AttestationLatencyFromFourSeconds = v2, m_AttestationArrivalInSlot = v3,
           m_AttestationsReceived = v4, m_LateAttestations = v5, m_BlockArrivalInSlot = v6,
           m_BlocksReceived = v7, m_ConnectedPeers = v8, m_QUICPeers = v9,
           m_TCPPeers = v10, m_PeerUserAgents = v11, m_DialAttempts = v12,
           m_DialBackoffs = v13\<rparr>))))))))))))))"

text \<open>The views of an instance in the order of the fields.\<close>

definition all_views :: "Metrics \<Rightarrow> metric_view list" where
  "all_views m = [m_AttestationLatency m, m_AttestationLatencyFromFourSeconds m, m_AttestationArrivalInSlot m,
     m_AttestationsReceived m, m_LateAttestations m, m_BlockArrivalInSlot m,
     m_BlocksReceived m, m_ConnectedPeers m, m_QUICPeers m,
     m_TCPPeers m, m_PeerUserAgents m, m_DialAttempts m,
     m_DialBackoffs m]"

section \<open>Property\<close>

lemma buckets_increase: "sorted_wrt (<) latencyBuckets" "sorted_wrt (<) blockBuckets"
  by (simp_all add: latencyBuckets_def blockBuckets_def)

text \<open>
  Start-up of the metrics never panics.  All collectors can be created and registered together,
  and for every instance name the views can be made: each has the probe label fixed to that name, and
  what is left to the caller is the subnet label for the five attestation metrics, the agent label
  for the user agents, and nothing for the others.
\<close>

lemma metrics_never_panic:
  "init_metrics = Inr (map co_Name registered) \<and>
   (\<exists>m. NewMetrics probeName = Inr m \<and>
      (\<forall>v \<in> set (all_views m). mv_fixed v = [(''probe'', probeName)]) \<and>
      map mv_open (all_views m) = replicate 5 [''subnet_id''] @ replicate 5 [] @ [[''user_agent'']] @ replicate 2 [])"
proof -
  have "init_metrics = Inr (map co_Name registered)"
    by (simp add: init_metrics_def registered_def collector_defs new_collector_def buckets_increase)
  moreover have "\<exists>m. NewMetrics probeName = Inr m \<and>
      (\<forall>v \<in> set (all_views m). mv_fixed v = [(''probe'', probeName)]) \<and>
      map mv_open (all_views m) = replicate 5 [''subnet_id''] @ replicate 5 [] @ [[''user_agent'']] @ replicate 2 []"
    by (simp add: NewMetrics_def all_views_def MustCurryWith_def WithLabelValues_def collector_defs Let_def numeral_eq_Suc)
  ultimately show ?thesis by blast
qed

lemma metrics_never_panic_example:
  "\<exists>m. NewMetrics ''probe-1'' = Inr m"
  using metrics_never_panic [of "''probe-1''"] by blast

section \<open>Serving\<close>

text \<open>
  The server has one route, answered from the registry that \<open>init_metrics\<close> fills.  \<open>listen_fails\<close> is the
  outcome of \<^verbatim>\<open>ListenAndServe\<close>, which returns only with an error; the error is logged and the rest of the
  program goes on.
\<close>

datatype serve_log = ServeStarting string | ServeFailed

definition metrics_mux :: "string \<rightharpoonup> string list res" where
  "metrics_mux = [''/metrics'' \<mapsto> init_metrics]"

definition Serve :: "(string \<Rightarrow> bool) \<Rightarrow> string \<Rightarrow> serve_log list" where
  "Serve listen_fails addr = ServeStarting addr # (if listen_fails addr then [ServeFailed] else [])"

lemma metrics_served:
  "\<exists>names. metrics_mux ''/metrics'' = Some (Inr names) \<and> set names = co_Name ` set registered"
  using metrics_never_panic [of "''a''"] by (auto simp: metrics_mux_def)

end
