(* ===== verification/Startup.thy ===== *)
theory Startup
  imports Instance_System Discovery_Start Config_File Host_Keys Metric_Registry
begin

text \<open>
  \<^verbatim>\<open>main.go\<close>: the wiring of the program in its two modes.  The start-up functions are modelled as the list
  of effects they have on the rest of the program, in the order of the code, ending with the reason
  when the process exits.  The calls that can fail outside the repository (cryptography, libp2p,
  gossipsub, files, discovery) have their outcome given by an environment.  \<^verbatim>\<open>main\<close> itself, around the two
  modes, is the theory \<open>Main_Program\<close>.
\<close>

section \<open>Environment, effects and exits\<close>

record ('k, 'h) start_env =
  st_crypto :: "'k crypto_lib"
  st_unmarshal :: "bytes \<Rightarrow> bytes option"
  st_new :: "SiblingGater host_option list \<Rightarrow> 'h option"
  st_IDFromPrivateKey :: "bytes \<Rightarrow> peer_id option"
  st_gen :: "nat \<Rightarrow> 'k option"
  st_gossip :: "nat \<Rightarrow> bool"
  st_subscribe :: "nat \<Rightarrow> u64 list \<Rightarrow> bool"
  st_openLog :: "string \<Rightarrow> bool"
  st_blocks :: "nat \<Rightarrow> bool"
  st_disc :: "nat \<Rightarrow> disc_env"
  st_hostID :: "'h \<Rightarrow> string"
  st_hostAddrs :: "'h \<Rightarrow> string list"

datatype exit_reason =
    ExitKey nat key_error
  | ExitPeerID nat
  | ExitHost nat host_error
  | ExitGossip nat
  | ExitSubscribe nat
  | ExitLogFile nat
  | ExitBlockTopic nat
  | ExitDiscovery nat disc_error
  | ExitPanic panic

datatype effect =
    CreateHost string
  | LogHost string string
  | LogListening string string
  | RegisterRPC string bytes
  | GoSendStatus string
  | GoTrackUserAgents string
  | GoPeerManager string int
  | GoReportConnectivity string
  | GoHandleInbound string
  | StartGossip string int bool "u64 list" string
  | Subscribed string "u64 list"
  | OpenLog string
  | GoListenBlocks string
  | GoListenAttestations string "u64 list"
  | StartDisc string disc_config
  | GoBootstrap string bool

definition main_subnets :: "Config \<Rightarrow> u64 list" where
  "main_subnets cfg = (if Mode cfg = ''crawl'' then map of_nat [0..<64] else Subnets cfg)"

definition peerIDFromECDSA :: "('k, 'h) start_env \<Rightarrow> 'k \<Rightarrow> peer_id option" where
  "peerIDFromECDSA env key =
     (case st_unmarshal env (cl_FromECDSA (st_crypto env) key) of
        None \<Rightarrow> None
      | Some libp2pKey \<Rightarrow> st_IDFromPrivateKey env libp2pKey)"

definition logHost :: "('k, 'h) start_env \<Rightarrow> 'h \<Rightarrow> string \<Rightarrow> effect list" where
  "logHost env h name = LogHost name (st_hostID env h) # map (LogListening name) (st_hostAddrs env h)"

section \<open>Crawl mode\<close>

definition crawl_disc_config :: "Config \<Rightarrow> bytes \<Rightarrow> u64 list \<Rightarrow> bytes \<Rightarrow> disc_config" where
  "crawl_disc_config cfg forkDigest subnetIDs attnets =
     \<lparr>dc_DiscPort = DiscV5Port cfg 0, dc_DiscV4Port = DiscV4Port cfg, dc_ForkDigest = forkDigest, dc_SubnetIDs = subnetIDs,
      dc_AttnetsBytes = attnets, dc_QuicOnly = QuicOnly (Instances cfg ! 0), dc_ActiveCrawl = True,
      dc_CrawlFile = CrawlFile cfg\<rparr>"

definition runCrawl ::
  "('k, 'h) start_env \<Rightarrow> file_system \<Rightarrow> Config \<Rightarrow> bytes \<Rightarrow> u64 list \<Rightarrow> bytes \<Rightarrow> (exit_reason option \<times> effect list) \<times> file_system" where
  "runCrawl env fs cfg forkDigest subnetIDs attnets =
     (if Instances cfg = [] then ((Some (ExitPanic SliceOutOfRange), []), fs)
      else
        let inst = Instances cfg ! 0; name = Name inst in
        case KeyFile cfg 0 of
          Inl p \<Rightarrow> ((Some (ExitPanic p), []), fs)
        | Inr keyFile \<Rightarrow>
           (case NewHost (st_crypto env) (st_unmarshal env) (st_new env) (st_gen env 0) fs
                   (TCPPort cfg 0) (QUICPort cfg 0) keyFile (QuicOnly inst) of
              (Inl e, fs') \<Rightarrow> ((Some (ExitHost 0 e), []), fs')
            | (Inr (h, _), fs') \<Rightarrow>
               (let dc = crawl_disc_config cfg forkDigest subnetIDs attnets;
                    eff = CreateHost name # logHost env h name @ [GoTrackUserAgents name, RegisterRPC name attnets, GoSendStatus name,
                           GoPeerManager name 0, GoReportConnectivity name, StartDisc name dc]
                in case fst (StartDiscovery (st_disc env 0) dc) of
                     Inl e \<Rightarrow> ((Some (ExitDiscovery 0 e), eff), fs')
                   | Inr _ \<Rightarrow> ((None, eff), fs'))))"

section \<open>Probe mode\<close>

text \<open>Step 2: the keys of all instances and their peer IDs.\<close>

fun load_keys ::
  "('k, 'h) start_env \<Rightarrow> Config \<Rightarrow> file_system \<Rightarrow> nat list \<Rightarrow> (exit_reason + ('k \<times> peer_id) list) \<times> file_system" where
  "load_keys env cfg fs [] = (Inr [], fs)"
| "load_keys env cfg fs (i # is) =
     (case KeyFile cfg i of
        Inl p \<Rightarrow> (Inl (ExitPanic p), fs)
      | Inr keyFile \<Rightarrow>
         (case LoadOrGenerateKey (st_crypto env) (st_gen env i) fs keyFile of
            (Inl e, fs') \<Rightarrow> (Inl (ExitKey i e), fs')
          | (Inr key, fs') \<Rightarrow>
             (case peerIDFromECDSA env key of
                None \<Rightarrow> (Inl (ExitPeerID i), fs')
              | Some pid \<Rightarrow>
                 (case load_keys env cfg fs' is of
                    (Inl e, fs'') \<Rightarrow> (Inl e, fs'')
                  | (Inr ks, fs'') \<Rightarrow> (Inr ((key, pid) # ks), fs'')))))"

text \<open>Step 4: a host per instance, with a gater that knows all other instances.\<close>

fun create_hosts ::
  "('k, 'h) start_env \<Rightarrow> Config \<Rightarrow> ('k \<times> peer_id) list \<Rightarrow> nat list \<Rightarrow> exit_reason option \<times> (string \<times> 'h) list" where
  "create_hosts env cfg keys [] = (None, [])"
| "create_hosts env cfg keys (i # is) =
     (let name = Name (Instances cfg ! i);
          gater = NewSiblingGater name (sibling_ids (map snd keys) i)
      in case NewHostWithKey (st_crypto env) (st_unmarshal env) (st_new env) (TCPPort cfg i) (QUICPort cfg i)
                (fst (keys ! i)) (QuicOnly (Instances cfg ! i)) (Some gater) of
           Inl e \<Rightarrow> (Some (ExitHost i e), [])
         | Inr h \<Rightarrow> (case create_hosts env cfg keys is of (r, hs) \<Rightarrow> (r, (name, h) # hs)))"

text \<open>Each host that was created is entered in the map of hosts and logged.\<close>

definition log_hosts :: "('k, 'h) start_env \<Rightarrow> (string \<times> 'h) list \<Rightarrow> effect list" where
  "log_hosts env hs = concat (map (\<lambda>(name, h). CreateHost name # logHost env h name) hs)"

text \<open>Step 6: the services of one instance, in order, up to the first failure.\<close>

definition gossip_log :: "InstanceConfig \<Rightarrow> string" where
  "gossip_log inst = (if GossipSubLogFile inst = '''' then LogFile inst @ ''.gossipsub'' else GossipSubLogFile inst)"

definition start_instance ::
  "('k, 'h) start_env \<Rightarrow> Config \<Rightarrow> u64 list \<Rightarrow> bytes \<Rightarrow> nat \<Rightarrow> exit_reason option \<times> effect list" where
  "start_instance env cfg subnetIDs attnets i =
     (let inst = Instances cfg ! i;
          name = Name inst;
          eff = [RegisterRPC name attnets, GoSendStatus name, GoTrackUserAgents name, GoPeerManager name (MaxPeers inst),
                 GoReportConnectivity name, GoHandleInbound name]
      in if \<not> st_gossip env i then (Some (ExitGossip i), eff)
         else
           let eff = eff @ [StartGossip name (GossipD inst) (DisableIHave inst) subnetIDs (gossip_log inst)] in
           if \<not> st_subscribe env i subnetIDs then (Some (ExitSubscribe i), eff)
           else
             let eff = eff @ [Subscribed name subnetIDs] in
             if \<not> st_openLog env (LogFile inst) then (Some (ExitLogFile i), eff)
             else
               let eff = eff @ [OpenLog (LogFile inst)] in
               if i = 0 \<and> ListenBlocks cfg then
                 (if \<not> st_blocks env i then (Some (ExitBlockTopic i), eff)
                  else (None, eff @ [GoListenBlocks name, GoListenAttestations name subnetIDs]))
               else (None, eff @ [GoListenAttestations name subnetIDs]))"

text \<open>Step 7: discovery of one instance; only the first crawls and only the first uses discv4.\<close>

definition probe_disc_config :: "Config \<Rightarrow> bytes \<Rightarrow> u64 list \<Rightarrow> bytes \<Rightarrow> nat \<Rightarrow> disc_config" where
  "probe_disc_config cfg forkDigest subnetIDs attnets i =
     (let dc = \<lparr>dc_DiscPort = DiscV5Port cfg i, dc_DiscV4Port = 0, dc_ForkDigest = forkDigest, dc_SubnetIDs = subnetIDs,
                dc_AttnetsBytes = attnets, dc_QuicOnly = QuicOnly (Instances cfg ! i), dc_ActiveCrawl = (i = 0),
                dc_CrawlFile = ''''\<rparr>
      in if i = 0 then dc\<lparr>dc_DiscV4Port := DiscV4Port cfg\<rparr> else dc)"

definition start_disc ::
  "('k, 'h) start_env \<Rightarrow> Config \<Rightarrow> bytes \<Rightarrow> u64 list \<Rightarrow> bytes \<Rightarrow> nat \<Rightarrow> exit_reason option \<times> effect list" where
  "start_disc env cfg forkDigest subnetIDs attnets i =
     (let dc = probe_disc_config cfg forkDigest subnetIDs attnets i
      in case fst (StartDiscovery (st_disc env i) dc) of
           Inl e \<Rightarrow> (Some (ExitDiscovery i e), [StartDisc (Name (Instances cfg ! i)) dc])
         | Inr _ \<Rightarrow> (None, [StartDisc (Name (Instances cfg ! i)) dc]))"

fun in_sequence :: "('a \<Rightarrow> exit_reason option \<times> effect list) \<Rightarrow> 'a list \<Rightarrow> exit_reason option \<times> effect list" where
  "in_sequence f [] = (None, [])"
| "in_sequence f (x # xs) =
     (case f x of
        (Some e, eff) \<Rightarrow> (Some e, eff)
      | (None, eff) \<Rightarrow> (case in_sequence f xs of (r, eff') \<Rightarrow> (r, eff @ eff')))"

definition runProbe ::
  "('k, 'h) start_env \<Rightarrow> file_system \<Rightarrow> Config \<Rightarrow> bytes \<Rightarrow> u64 list \<Rightarrow> bytes \<Rightarrow> (exit_reason option \<times> effect list) \<times> file_system" where
  "runProbe env fs cfg forkDigest subnetIDs attnets =
     (let n = length (Instances cfg) in
      case load_keys env cfg fs [0..<n] of
        (Inl e, fs') \<Rightarrow> ((Some e, []), fs')
      | (Inr keys, fs') \<Rightarrow>
         (case NewSharedPeerSet (map Name (Instances cfg)) of
            Inl p \<Rightarrow> ((Some (ExitPanic p), []), fs')
          | Inr _ \<Rightarrow>
             (case create_hosts env cfg keys [0..<n] of
                (Some e, hs) \<Rightarrow> ((Some e, log_hosts env hs), fs')
              | (None, hs) \<Rightarrow>
                 (case in_sequence (start_instance env cfg subnetIDs attnets) [0..<n] of
                    (Some e, eff) \<Rightarrow> ((Some e, log_hosts env hs @ eff), fs')
                  | (None, eff) \<Rightarrow>
                     (case in_sequence (start_disc env cfg forkDigest subnetIDs attnets) [0..<n] of
                        (Some e, eff') \<Rightarrow> ((Some e, log_hosts env hs @ eff @ eff'), fs')
                      | (None, eff') \<Rightarrow>
                          ((None, log_hosts env hs @ eff @ eff' @
                             (if BootstrapFile cfg \<noteq> '''' then [GoBootstrap (BootstrapFile cfg) (QuicOnly (Instances cfg ! 0))] else [])), fs'))))))"

definition main_run ::
  "('k, 'h) start_env \<Rightarrow> file_system \<Rightarrow> Config \<Rightarrow> bytes \<Rightarrow> (exit_reason option \<times> effect list) \<times> file_system" where
  "main_run env fs cfg forkDigest =
     (let subnetIDs = main_subnets cfg;
          attnets = MakeAttnetsBytes subnetIDs
      in if Mode cfg = ''crawl'' then runCrawl env fs cfg forkDigest subnetIDs attnets
         else runProbe env fs cfg forkDigest subnetIDs attnets)"

section \<open>Lemmas\<close>

lemma in_sequence_None:
  "in_sequence f xs = (None, eff) \<Longrightarrow> (\<forall>x \<in> set xs. fst (f x) = None) \<and> eff = concat (map (\<lambda>x. snd (f x)) xs)"
  by (induction xs arbitrary: eff) (auto split: prod.splits option.splits)

definition disc_configs :: "effect list \<Rightarrow> disc_config list" where
  "disc_configs eff = concat (map (\<lambda>e. case e of StartDisc _ dc \<Rightarrow> [dc] | _ \<Rightarrow> []) eff)"

lemma disc_configs_append [simp]: "disc_configs (a @ b) = disc_configs a @ disc_configs b"
  by (simp add: disc_configs_def)

lemma disc_configs_concat: "disc_configs (concat xs) = concat (map disc_configs xs)"
  by (induction xs) (simp_all add: disc_configs_def)

lemma start_instance_effects:
  "disc_configs (snd (start_instance env cfg subnets attnets i)) = []"
  "GoListenBlocks name \<in> set (snd (start_instance env cfg subnets attnets i)) \<Longrightarrow> i = 0 \<and> ListenBlocks cfg \<and> name = Name (Instances cfg ! 0)"
  "fst (start_instance env cfg subnets attnets i) = None \<Longrightarrow> ListenBlocks cfg \<Longrightarrow> i = 0 \<Longrightarrow>
     GoListenBlocks (Name (Instances cfg ! 0)) \<in> set (snd (start_instance env cfg subnets attnets i))"
  by (auto simp: start_instance_def disc_configs_def Let_def split: if_splits)

lemma start_disc_effects:
  "disc_configs (snd (start_disc env cfg fd subnets attnets i)) = [probe_disc_config cfg fd subnets attnets i]"
  "GoListenBlocks name \<notin> set (snd (start_disc env cfg fd subnets attnets i))"
  by (auto simp: start_disc_def disc_configs_def Let_def split: sum.splits)

lemma create_hosts_names:
  "create_hosts env cfg keys is = (None, hs) \<Longrightarrow> map fst hs = map (\<lambda>i. Name (Instances cfg ! i)) is"
  by (induction "is" arbitrary: hs) (auto simp: Let_def split: sum.splits prod.splits)

lemma log_hosts_effects:
  "disc_configs (log_hosts env hs) = []" "GoListenBlocks name \<notin> set (log_hosts env hs)"
  by (induction hs) (auto simp: log_hosts_def logHost_def disc_configs_def)

lemma runProbe_ok:
  assumes "fst (runProbe env fs cfg fd subnets attnets) = (None, eff)"
  shows "\<exists>hs tl. map fst hs = map Name (Instances cfg) \<and> (\<forall>e \<in> set tl. \<exists>f q. e = GoBootstrap f q) \<and>
    eff = log_hosts env hs @ concat (map (\<lambda>i. snd (start_instance env cfg subnets attnets i)) [0..<length (Instances cfg)]) @
          concat (map (\<lambda>i. snd (start_disc env cfg fd subnets attnets i)) [0..<length (Instances cfg)]) @ tl \<and>
    (\<forall>i < length (Instances cfg). fst (start_instance env cfg subnets attnets i) = None)"
proof -
  have names: "map (\<lambda>i. Name (Instances cfg ! i)) [0..<length (Instances cfg)] = map Name (Instances cfg)"
    by (rule nth_equalityI) simp_all
  note hosts = create_hosts_names [of env cfg _ "[0..<length (Instances cfg)]", unfolded names]
  show ?thesis
    using assms in_sequence_None [of "start_instance env cfg subnets attnets" "[0..<length (Instances cfg)]"]
    in_sequence_None [of "start_disc env cfg fd subnets attnets" "[0..<length (Instances cfg)]"]
    by (auto simp: runProbe_def Let_def dest: hosts split: prod.splits sum.splits option.splits if_splits)
qed

section \<open>Properties\<close>

text \<open>
  C25: exactly one instance searches the network.  When the program has started in probe mode with a
  valid configuration, discovery runs once per instance, on that instance's discv5 port and with the
  configured subnets as the advertised bit vector; exactly the first one crawls and has the discv4
  port; and the block listener runs, on the first instance only, iff it is configured.
\<close>

theorem probe_starts_one_crawler:
  assumes "Validate cfg = None" and "Mode cfg = ''probe''"
    and "fst (main_run env fs cfg fd) = (None, eff)"
  shows "map dc_DiscPort (disc_configs eff) = map (DiscV5Port cfg) [0..<length (Instances cfg)] \<and>
     (\<exists>dc rest. disc_configs eff = dc # rest \<and> dc_ActiveCrawl dc \<and> dc_DiscV4Port dc = DiscV4Port cfg \<and>
        (\<forall>d \<in> set rest. \<not> dc_ActiveCrawl d \<and> dc_DiscV4Port d = 0)) \<and>
     (\<forall>d \<in> set (disc_configs eff). dc_SubnetIDs d = Subnets cfg \<and> dc_AttnetsBytes d = MakeAttnetsBytes (Subnets cfg)) \<and>
     (\<forall>name. GoListenBlocks name \<in> set eff \<longleftrightarrow> ListenBlocks cfg \<and> name = Name (Instances cfg ! 0))"
proof -
  let ?n = "length (Instances cfg)" and ?a = "MakeAttnetsBytes (Subnets cfg)"
  let ?dc = "probe_disc_config cfg fd (Subnets cfg) ?a"
  have n: "0 < ?n" using assms(1) by (auto simp: Validate_def split: if_splits)
  then have upt: "[0..<?n] = 0 # [1..<?n]" by (simp add: upt_conv_Cons)
  have "fst (runProbe env fs cfg fd (Subnets cfg) ?a) = (None, eff)"
    using assms(2,3) by (simp add: main_run_def main_subnets_def Let_def)
  from runProbe_ok [OF this] obtain hs tl where tl: "(\<forall>e \<in> set tl. \<exists>f q. e = GoBootstrap f q)"
    and eff: "eff = log_hosts env hs @ concat (map (\<lambda>i. snd (start_instance env cfg (Subnets cfg) ?a i)) [0..<?n]) @
      concat (map (\<lambda>i. snd (start_disc env cfg fd (Subnets cfg) ?a i)) [0..<?n]) @ tl"
    and ok: "\<And>i. i < ?n \<Longrightarrow> fst (start_instance env cfg (Subnets cfg) ?a i) = None" by blast
  from tl have "disc_configs tl = []" by (fastforce simp: disc_configs_def)
  then have dcs: "disc_configs eff = map ?dc [0..<?n]"
    by (simp add: eff disc_configs_concat comp_def start_instance_effects start_disc_effects log_hosts_effects concat_map_singleton)
  have blocks: "GoListenBlocks name \<in> set eff \<longleftrightarrow> ListenBlocks cfg \<and> name = Name (Instances cfg ! 0)" for name
  proof
    assume "GoListenBlocks name \<in> set eff"
    with tl show "ListenBlocks cfg \<and> name = Name (Instances cfg ! 0)"
      by (auto simp: eff start_disc_effects log_hosts_effects dest: start_instance_effects(2))
  next
    assume "ListenBlocks cfg \<and> name = Name (Instances cfg ! 0)"
    with start_instance_effects(3) [OF ok [OF n]] n show "GoListenBlocks name \<in> set eff"
      by (force simp: eff)
  qed
  have "disc_configs eff = ?dc 0 # map ?dc [1..<?n]" by (simp only: dcs upt list.map)
  moreover have "\<forall>d \<in> set (map ?dc [1..<?n]). \<not> dc_ActiveCrawl d \<and> dc_DiscV4Port d = 0"
    by (auto simp: probe_disc_config_def)
  moreover have "map dc_DiscPort (disc_configs eff) = map (DiscV5Port cfg) [0..<?n]"
    by (simp add: dcs probe_disc_config_def Let_def)
  moreover have "\<forall>d \<in> set (disc_configs eff). dc_SubnetIDs d = Subnets cfg \<and> dc_AttnetsBytes d = ?a"
    by (auto simp: dcs probe_disc_config_def Let_def)
  ultimately show ?thesis using blocks by (auto simp: probe_disc_config_def)
qed

definition demo_start_env :: "(u8, unit) start_env" where
  "demo_start_env = \<lparr>st_crypto = demo_crypto, st_unmarshal = Some, st_new = (\<lambda>_. Some ()),
     st_IDFromPrivateKey = (\<lambda>k. Some (bytes_str k)), st_gen = (\<lambda>i. Some (of_nat i)), st_gossip = (\<lambda>_. True),
     st_subscribe = (\<lambda>_ _. True), st_openLog = (\<lambda>_. True), st_blocks = (\<lambda>_. True), st_disc = (\<lambda>_. demo_env),
     st_hostID = (\<lambda>_. ''16Uiu2HAm1234567''), st_hostAddrs = (\<lambda>_. [''/ip4/0.0.0.0/tcp/9000''])\<rparr>"

lemma demo_keys:
  "KeyFile (demo_config ''a'' ''b'') 0 = Inr ''keys/a.key''" "KeyFile (demo_config ''a'' ''b'') (Suc 0) = Inr ''keys/b.key''"
  by (simp_all add: demo_config_def demo_inst_def KeyFile_def path_Join_def path_Clean_def clean_step_def Let_def)

lemma demo_config_instances [simp]:
  "Instances (demo_config a b) = [demo_inst a, demo_inst b]" "Mode (demo_config a b) = ''probe''"
  by (simp_all add: demo_config_def default_config_def)

lemma demo_StartDiscovery: "length fd = 4 \<Longrightarrow> fst (StartDiscovery demo_env (probe_disc_config c fd ids as i)) = Inr ()"
  by (simp add: StartDiscovery_def demo_env_def probe_disc_config_def start_crawl_def start_v4_def Let_def)

lemma demo_probe_starts:
  assumes "length fd = 4" and "Mode c = ''probe''" and n: "length (Instances c) = 2"
    and "KeyFile c 0 = Inr ''keys/a.key''" and "KeyFile c (Suc 0) = Inr ''keys/b.key''"
    and "m ''keys/a.key'' = None" and "m ''keys/b.key'' = None"
  shows "fst (fst (main_run demo_start_env (demo_fs\<lparr>fs_files := m\<rparr>) c fd)) = None"
proof -
  have two: "[0..<length (Instances c)] = [0, Suc 0]" using n by (simp add: upt_rec)
  have "\<exists>ks fs. load_keys demo_start_env c (demo_fs\<lparr>fs_files := m\<rparr>) [0, Suc 0] = (Inr ks, fs)"
    using assms by (simp add: LoadOrGenerateKey_def ReadFile_def WriteFile_def demo_fs_def demo_start_env_def
        peerIDFromECDSA_def Let_def)
  then obtain ks fs where k: "load_keys demo_start_env c (demo_fs\<lparr>fs_files := m\<rparr>) [0, Suc 0] = (Inr ks, fs)" by blast
  have h: "\<exists>hs. create_hosts demo_start_env c ks [0, Suc 0] = (None, hs)"
    by (simp add: NewHostWithKey_def demo_start_env_def Let_def)
  have s: "fst (start_instance demo_start_env c ids as i) = None" for ids as i
    by (simp add: start_instance_def demo_start_env_def Let_def)
  have d: "fst (start_disc demo_start_env c fd ids as i) = None" for ids as i
    using demo_StartDiscovery [OF assms(1), of c ids as i]
    by (simp add: start_disc_def demo_start_env_def Let_def split: sum.splits)
  have seq: "\<exists>eff. in_sequence f xs = (None, eff)" if "\<And>x. fst (f x) = None" for f and xs :: "nat list"
  proof (induction xs)
    case (Cons x xs)
    then show ?case using that [of x] by (cases "f x") auto
  qed simp
  obtain e1 e2 where "in_sequence (start_instance demo_start_env c (Subnets c) (MakeAttnetsBytes (Subnets c))) [0, Suc 0] = (None, e1)"
    and "in_sequence (start_disc demo_start_env c fd (Subnets c) (MakeAttnetsBytes (Subnets c))) [0, Suc 0] = (None, e2)"
    using seq [of "start_instance demo_start_env c (Subnets c) (MakeAttnetsBytes (Subnets c))" "[0, Suc 0]", OF s]
      seq [of "start_disc demo_start_env c fd (Subnets c) (MakeAttnetsBytes (Subnets c))" "[0, Suc 0]", OF d] by blast
  moreover have "map Name (Instances c) \<noteq> []" using n by auto
  ultimately show ?thesis
    using k h assms(2) two by (auto simp: main_run_def main_subnets_def runProbe_def NewSharedPeerSet_def Let_def)
qed

theorem probe_starts_one_crawler_witness:
  "\<exists>eff dc. fst (main_run demo_start_env demo_fs (demo_config ''a'' ''b'') [1, 2, 3, 4]) = (None, eff) \<and>
     map dc_DiscPort (disc_configs eff) = [12000, 12001] \<and> hd (disc_configs eff) = dc \<and> dc_ActiveCrawl dc"
proof -
  have "fst (fst (main_run demo_start_env demo_fs (demo_config ''a'' ''b'') [1, 2, 3, 4])) = None"
    using demo_probe_starts [of "[1, 2, 3, 4]" "demo_config ''a'' ''b''" Map.empty] by (simp add: demo_keys demo_fs_def)
  then obtain eff where eff: "fst (main_run demo_start_env demo_fs (demo_config ''a'' ''b'') [1, 2, 3, 4]) = (None, eff)"
    by (cases "fst (main_run demo_start_env demo_fs (demo_config ''a'' ''b'') [1, 2, 3, 4])") auto
  have "Validate (demo_config ''a'' ''b'') = None" by (rule demo_config_valid) simp_all
  from probe_starts_one_crawler [OF this _ eff] show ?thesis
    unfolding eff by (auto simp: DiscV5Port_def demo_config_def default_config_def)
qed

end
