(* ===== verification/Main_Program.thy ===== *)
theory Main_Program
  imports Startup
begin

text \<open>
  \<^verbatim>\<open>main\<close> of \<^verbatim>\<open>main.go\<close>: the flag, the configuration, the log level, the chain parameters, the metrics
  server, one of the two modes, and, after a signal, cancelling the context and closing hosts and
  logs.  The outcome is the way the process ends and the list of its effects in order.  Prysm's
  chain parameters and the YAML parser are arguments; the order in which Go ranges over the map of
  hosts when closing them is the argument \<open>close_order\<close>.  The signal is one that \<^verbatim>\<open>main\<close> waits for: before
  \<^verbatim>\<open>signal.Notify\<close>, which comes after start-up, the operating system ends the process and nothing is closed.
\<close>

section \<open>The log level\<close>

text \<open>\<^verbatim>\<open>strconv.Atoi\<close>: an optional sign, then decimal digits, in the range of an int.\<close>

definition Atoi :: "string \<Rightarrow> int option" where
  "Atoi s =
     (let neg = prefix ''-'' s;
          ds = (if prefix ''-'' s \<or> prefix ''+'' s then tl s else s)
      in if ds = '''' \<or> \<not> list_all is_digit ds then None
         else let v = (if neg then - int (read_dec ds) else int (read_dec ds))
              in if in_int64 v then Some v else None)"

text \<open>
  \<^verbatim>\<open>strings.ToUpper\<close> as far as the level names go: ASCII letters, and the one other character whose upper
  case is an ASCII letter of these names (the dotless i, two bytes in UTF-8).
\<close>

fun ToUpper :: "string \<Rightarrow> string" where
  "ToUpper [] = []"
| "ToUpper [c] = [if 97 \<le> (of_char c :: nat) \<and> (of_char c :: nat) \<le> 122 then char_of ((of_char c :: nat) - 32) else c]"
| "ToUpper (c # d # s) =
     (if (of_char c :: nat) = 0xC4 \<and> (of_char d :: nat) = 0xB1 then CHR ''I'' # ToUpper s
      else (if 97 \<le> (of_char c :: nat) \<and> (of_char c :: nat) \<le> 122 then char_of ((of_char c :: nat) - 32) else c) # ToUpper (d # s))"

definition level_names :: "(string \<times> int) list" where
  "level_names = [(''DEBUG'', -4), (''INFO'', 0), (''WARN'', 4), (''ERROR'', 8)]"

text \<open>\<^verbatim>\<open>slog.Level.UnmarshalText\<close>: a name in any case, with an optional signed offset.\<close>

definition UnmarshalText :: "string \<Rightarrow> int option" where
  "UnmarshalText s =
     (let name = takeWhile (\<lambda>c. c \<notin> set ''+-'') s;
          rest = dropWhile (\<lambda>c. c \<notin> set ''+-'') s
      in case (if rest = '''' then Some 0 else Atoi rest) of
           None \<Rightarrow> None
         | Some offset \<Rightarrow>
            (case map_of level_names (ToUpper name) of
               None \<Rightarrow> None
             | Some l \<Rightarrow> Some (wrap64 (l + offset))))"

section \<open>The program\<close>

record ('k, 'h) main_env =
  me_start :: "('k, 'h) start_env"
  me_yaml :: "string \<Rightarrow> Config \<Rightarrow> Config option"
  me_CurrentSlot :: "time \<Rightarrow> u64"
  me_ToEpoch :: "u64 \<Rightarrow> u64"
  me_ForkDigest :: "u64 \<Rightarrow> bytes"
  me_signal :: string
  me_close_order :: "string list \<Rightarrow> string list"

datatype main_end =
    NoConfigPath
  | LoadFailed config_error
  | BadLogLevel
  | StartFailed exit_reason
  | Shutdown

datatype main_effect =
    SetLevel int
  | LogStarting string nat u64 u64 string "u64 list"
  | GoServe string
  | Do effect
  | LogShutdown string
  | CancelContext
  | CloseHost string
  | CloseFile string

definition mainnetGenesisUnix :: int where
  "mainnetGenesisUnix = 1606824023"

definition genesisTime :: time where
  "genesisTime = mainnetGenesisUnix * Second"

definition load_config :: "('k, 'h) main_env \<Rightarrow> file_system \<Rightarrow> string \<Rightarrow> config_error + Config" where
  "load_config env fs path =
     Load (me_yaml env) (case ReadFile fs path of ReadOk data \<Rightarrow> Some (bytes_str data) | _ \<Rightarrow> None)"

text \<open>
  The cleanup functions the two modes return.  Both close the hosts created, in probe mode those in the
  map of hosts; probe mode then closes the attestation log files in the order they were opened.
\<close>

definition host_names :: "effect list \<Rightarrow> string list" where
  "host_names eff = concat (map (\<lambda>e. case e of CreateHost name \<Rightarrow> [name] | _ \<Rightarrow> []) eff)"

definition opened_logs :: "effect list \<Rightarrow> string list" where
  "opened_logs eff = concat (map (\<lambda>e. case e of OpenLog f \<Rightarrow> [f] | _ \<Rightarrow> []) eff)"

definition crawl_cleanup :: "Config \<Rightarrow> main_effect list" where
  "crawl_cleanup cfg = [CloseHost (Name (Instances cfg ! 0))]"

definition probe_cleanup :: "('k, 'h) main_env \<Rightarrow> effect list \<Rightarrow> main_effect list" where
  "probe_cleanup env eff = map CloseHost (me_close_order env (remdups (host_names eff))) @ map CloseFile (opened_logs eff)"

definition main :: "('k, 'h) main_env \<Rightarrow> file_system \<Rightarrow> string \<Rightarrow> (main_end \<times> main_effect list) \<times> file_system" where
  "main env fs configPath =
     (if configPath = '''' then ((NoConfigPath, []), fs)
      else case load_config env fs configPath of
        Inl e \<Rightarrow> ((LoadFailed e, []), fs)
      | Inr cfg \<Rightarrow>
         (case UnmarshalText (LogLevel cfg) of
            None \<Rightarrow> ((BadLogLevel, []), fs)
          | Some slogLevel \<Rightarrow>
             (let currentSlot = me_CurrentSlot env genesisTime;
                  currentEpoch = me_ToEpoch env currentSlot;
                  forkDigest = me_ForkDigest env currentEpoch;
                  pre = [SetLevel slogLevel,
                         LogStarting (Mode cfg) (length (Instances cfg)) currentSlot currentEpoch (EncodeToString forkDigest) (main_subnets cfg),
                         GoServe (MetricsAddr cfg)]
              in case main_run (me_start env) fs cfg forkDigest of
                   ((Some e, eff), fs') \<Rightarrow> ((StartFailed e, pre @ map Do eff), fs')
                 | ((None, eff), fs') \<Rightarrow>
                     ((Shutdown, pre @ map Do eff @ [LogShutdown (me_signal env), CancelContext] @
                        (if Mode cfg = ''crawl'' then crawl_cleanup cfg else probe_cleanup env eff) @ [CancelContext]), fs'))))"

section \<open>Levels\<close>

text \<open>The names the configuration documents are accepted, and so is the default.\<close>

lemma documented_levels:
  "UnmarshalText ''debug'' = Some (-4)" "UnmarshalText ''info'' = Some 0"
  "UnmarshalText ''warn'' = Some 4" "UnmarshalText ''error'' = Some 8"
  by code_simp+

section \<open>Opening and closing\<close>

text \<open>What a run of \<^verbatim>\<open>main\<close> creates, opens and closes, in order.\<close>

definition made_hosts :: "main_effect list \<Rightarrow> string list" where
  "made_hosts effs = concat (map (\<lambda>e. case e of Do x \<Rightarrow> host_names [x] | _ \<Rightarrow> []) effs)"

definition opened_files :: "main_effect list \<Rightarrow> string list" where
  "opened_files effs = concat (map (\<lambda>e. case e of Do x \<Rightarrow> opened_logs [x] | _ \<Rightarrow> []) effs)"

definition closed_hosts :: "main_effect list \<Rightarrow> string list" where
  "closed_hosts effs = concat (map (\<lambda>e. case e of CloseHost n \<Rightarrow> [n] | _ \<Rightarrow> []) effs)"

definition closed_files :: "main_effect list \<Rightarrow> string list" where
  "closed_files effs = concat (map (\<lambda>e. case e of CloseFile f \<Rightarrow> [f] | _ \<Rightarrow> []) effs)"

lemmas ledger_defs = made_hosts_def opened_files_def closed_hosts_def closed_files_def

lemma ledger_append [simp]:
  "made_hosts (xs @ ys) = made_hosts xs @ made_hosts ys" "opened_files (xs @ ys) = opened_files xs @ opened_files ys"
  "closed_hosts (xs @ ys) = closed_hosts xs @ closed_hosts ys" "closed_files (xs @ ys) = closed_files xs @ closed_files ys"
  by (simp_all add: ledger_defs)

lemma ledger_Do [simp]:
  "made_hosts (map Do eff) = host_names eff" "opened_files (map Do eff) = opened_logs eff"
  "closed_hosts (map Do eff) = []" "closed_files (map Do eff) = []"
  by (induction eff) (simp_all add: ledger_defs host_names_def opened_logs_def)

lemma ledger_close [simp]:
  "made_hosts (map CloseHost ns) = []" "opened_files (map CloseHost ns) = []"
  "closed_hosts (map CloseHost ns) = ns" "closed_files (map CloseHost ns) = []"
  "made_hosts (map CloseFile fs) = []" "opened_files (map CloseFile fs) = []"
  "closed_hosts (map CloseFile fs) = []" "closed_files (map CloseFile fs) = fs"
  by (induction ns, simp_all add: ledger_defs) (induction fs, simp_all)+

lemma effects_append [simp]:
  "host_names (xs @ ys) = host_names xs @ host_names ys" "opened_logs (xs @ ys) = opened_logs xs @ opened_logs ys"
  by (simp_all add: host_names_def opened_logs_def)

lemma effects_concat: "host_names (concat xss) = concat (map host_names xss)" "opened_logs (concat xss) = concat (map opened_logs xss)"
  by (induction xss) (simp_all add: host_names_def opened_logs_def)

lemma logHost_effects: "host_names (logHost env h n) = []" "opened_logs (logHost env h n) = []"
proof -
  have "host_names (map (LogListening n) as) = [] \<and> opened_logs (map (LogListening n) as) = []" for as
    by (induction as) (simp_all add: host_names_def opened_logs_def)
  then show "host_names (logHost env h n) = []" "opened_logs (logHost env h n) = []"
    by (simp_all add: logHost_def host_names_def opened_logs_def)
qed

lemma create_host_effects:
  "host_names (CreateHost n # eff) = n # host_names eff" "opened_logs (CreateHost n # eff) = opened_logs eff"
  by (simp_all add: host_names_def opened_logs_def)

lemma log_hosts_ledger: "host_names (log_hosts env hs) = map fst hs" "opened_logs (log_hosts env hs) = []"
  by (induction hs) (auto simp: log_hosts_def logHost_effects create_host_effects, simp_all add: host_names_def opened_logs_def)

lemma start_instance_ledger:
  "host_names (snd (start_instance env cfg subnets attnets i)) = []"
  "fst (start_instance env cfg subnets attnets i) = None \<Longrightarrow>
     opened_logs (snd (start_instance env cfg subnets attnets i)) = [LogFile (Instances cfg ! i)]"
  by (auto simp: start_instance_def host_names_def opened_logs_def Let_def split: if_splits)

lemma start_disc_ledger:
  "host_names (snd (start_disc env cfg fd subnets attnets i)) = []"
  "opened_logs (snd (start_disc env cfg fd subnets attnets i)) = []"
  by (auto simp: start_disc_def host_names_def opened_logs_def Let_def split: sum.splits)

lemma runProbe_ledger:
  assumes "fst (runProbe env fs cfg fd subnets attnets) = (None, eff)"
  shows "host_names eff = map Name (Instances cfg)" and "opened_logs eff = map LogFile (Instances cfg)"
proof -
  let ?n = "length (Instances cfg)"
  from runProbe_ok [OF assms] obtain hs tl where names: "map fst hs = map Name (Instances cfg)"
    and tl: "\<forall>e \<in> set tl. \<exists>f q. e = GoBootstrap f q"
    and eff: "eff = log_hosts env hs @ concat (map (\<lambda>i. snd (start_instance env cfg subnets attnets i)) [0..<?n]) @
      concat (map (\<lambda>i. snd (start_disc env cfg fd subnets attnets i)) [0..<?n]) @ tl"
    and ok: "\<forall>i < ?n. fst (start_instance env cfg subnets attnets i) = None" by blast
  from tl have "host_names tl = []" "opened_logs tl = []" by (fastforce simp: host_names_def opened_logs_def)+
  then show "host_names eff = map Name (Instances cfg)"
    by (simp add: eff effects_concat log_hosts_ledger names comp_def start_instance_ledger start_disc_ledger)
  have logs: "map (\<lambda>i. opened_logs (snd (start_instance env cfg subnets attnets i))) [0..<?n] = map (\<lambda>i. [LogFile (Instances cfg ! i)]) [0..<?n]"
    by (rule map_cong) (use ok in \<open>simp_all add: start_instance_ledger\<close>)
  have none: "concat (map (\<lambda>i. []) [0..<?n]) = []" by simp
  have "opened_logs eff = concat (map (\<lambda>i. opened_logs (snd (start_instance env cfg subnets attnets i))) [0..<?n])"
    using \<open>opened_logs tl = []\<close> none by (simp add: eff effects_concat log_hosts_ledger comp_def start_disc_ledger del: concat_eq_Nil_conv)
  also have "\<dots> = map (\<lambda>i. LogFile (Instances cfg ! i)) [0..<?n]" unfolding logs by (simp add: concat_map_singleton)
  also have "\<dots> = map LogFile (Instances cfg)" by (rule nth_equalityI) simp_all
  finally show "opened_logs eff = map LogFile (Instances cfg)" .
qed

lemma runCrawl_ledger:
  assumes "fst (runCrawl env fs cfg fd subnets attnets) = (None, eff)"
  shows "host_names eff = [Name (Instances cfg ! 0)]" and "opened_logs eff = []"
  using assms
  by (auto simp: runCrawl_def Let_def logHost_effects create_host_effects split: if_splits sum.splits prod.splits)
    (simp_all add: host_names_def opened_logs_def)

lemma load_config_valid: "load_config env fs path = Inr cfg \<Longrightarrow> Validate cfg = None"
  by (auto simp: load_config_def Load_def Let_def split: option.splits)

lemma Validate_names: "Validate cfg = None \<Longrightarrow> distinct (map Name (Instances cfg)) \<and> Instances cfg \<noteq> []"
  by (auto simp: Validate_def check_names_None split: if_splits)

lemma main_run_ledger:
  assumes "Validate cfg = None" and "main_run env fs cfg fd = ((None, eff), fs')"
  shows "distinct (host_names eff)"
    and "Mode cfg = ''crawl'' \<Longrightarrow> host_names eff = [Name (Instances cfg ! 0)] \<and> opened_logs eff = []"
proof -
  show crawl: "Mode cfg = ''crawl'' \<Longrightarrow> host_names eff = [Name (Instances cfg ! 0)] \<and> opened_logs eff = []"
    using assms(2) runCrawl_ledger [of env fs cfg fd "main_subnets cfg" "MakeAttnetsBytes (main_subnets cfg)" eff]
    by (simp add: main_run_def Let_def)
  show "distinct (host_names eff)"
  proof (cases "Mode cfg = ''crawl''")
    case True
    with crawl show ?thesis by simp
  next
    case False
    with assms(2) have "fst (runProbe env fs cfg fd (main_subnets cfg) (MakeAttnetsBytes (main_subnets cfg))) = (None, eff)"
      by (simp add: main_run_def Let_def)
    from runProbe_ledger(1) [OF this] Validate_names [OF assms(1)] show ?thesis by simp
  qed
qed

text \<open>The effects of a run that ends with a signal: those before the context is cancelled, and the clean-up.\<close>

lemma main_Shutdown:
  assumes "main env fs path = ((Shutdown, effs), fs')"
  obtains cfg eff before where "Validate cfg = None"
    and "main_run (me_start env) fs cfg (me_ForkDigest env (me_ToEpoch env (me_CurrentSlot env genesisTime))) = ((None, eff), fs')"
    and "effs = before @ CancelContext #
        ((if Mode cfg = ''crawl'' then crawl_cleanup cfg else probe_cleanup env eff) @ [CancelContext])"
    and "closed_hosts before = []" and "closed_files before = []"
    and "made_hosts before = host_names eff" and "opened_files before = opened_logs eff"
proof -
  let ?pre = "\<lambda>cfg. [SetLevel (the (UnmarshalText (LogLevel cfg))),
     LogStarting (Mode cfg) (length (Instances cfg)) (me_CurrentSlot env genesisTime) (me_ToEpoch env (me_CurrentSlot env genesisTime))
       (EncodeToString (me_ForkDigest env (me_ToEpoch env (me_CurrentSlot env genesisTime)))) (main_subnets cfg),
     GoServe (MetricsAddr cfg)]"
  from assms obtain cfg eff where cfg: "load_config env fs path = Inr cfg"
    and run: "main_run (me_start env) fs cfg (me_ForkDigest env (me_ToEpoch env (me_CurrentSlot env genesisTime))) = ((None, eff), fs')"
    and effs: "effs = (?pre cfg @ map Do eff @ [LogShutdown (me_signal env)]) @ CancelContext #
        ((if Mode cfg = ''crawl'' then crawl_cleanup cfg else probe_cleanup env eff) @ [CancelContext])"
    by (auto simp: main_def Let_def split: if_splits sum.splits option.splits prod.splits)
  have "closed_hosts (?pre cfg) = []" "closed_files (?pre cfg) = []" "made_hosts (?pre cfg) = []" "opened_files (?pre cfg) = []"
    "closed_hosts [LogShutdown x] = []" "closed_files [LogShutdown x] = []" "made_hosts [LogShutdown x] = []" "opened_files [LogShutdown x] = []" for x
    by (simp_all add: ledger_defs)
  then show thesis
    by (intro that [OF load_config_valid [OF cfg] run effs]) (simp_all only: ledger_append ledger_Do append_Nil append_Nil2)
qed

lemma cleanup_ledger:
  assumes "Validate cfg = None" and "main_run env' fs cfg fd = ((None, eff), fs')" and "\<forall>xs. mset (me_close_order env xs) = mset xs"
    and "after = (if Mode cfg = ''crawl'' then crawl_cleanup cfg else probe_cleanup env eff) @ [CancelContext]"
  shows "mset (closed_hosts after) = mset (host_names eff)" and "closed_files after = opened_logs eff"
    and "made_hosts after = []" and "opened_files after = []"
  using main_run_ledger [OF assms(1,2)] assms(3) unfolding assms(4)
  by (auto simp: crawl_cleanup_def probe_cleanup_def distinct_remdups_id) (simp_all add: ledger_defs)

lemma ledger_cancel:
  "closed_hosts (CancelContext # A) = closed_hosts A" "closed_files (CancelContext # A) = closed_files A"
  "made_hosts (CancelContext # A) = made_hosts A" "opened_files (CancelContext # A) = opened_files A"
  by (simp_all add: ledger_defs)

section \<open>Everything that is opened\<close>

text \<open>
  What start-up opens: hosts, attestation logs, the trace files handed to gossipsub, the node databases and UDP
  sockets of discovery, the crawl file and the server of the metrics.
\<close>

datatype resource =
    RHost string
  | RLogFile string
  | RGossipTrace string
  | RNodeDB string
  | RSocket u64
  | RCrawlFile string
  | RMetricsServer string

fun opened_by :: "effect \<Rightarrow> resource list" where
  "opened_by (CreateHost name) = [RHost name]"
| "opened_by (OpenLog f) = [RLogFile f]"
| "opened_by (StartGossip name d i subnets trace) = [RGossipTrace trace]"
| "opened_by (StartDisc name dc) =
     [RNodeDB name, RSocket (dc_DiscPort dc)] @
     (if dc_ActiveCrawl dc then
        (if dc_CrawlFile dc = '''' then [] else [RCrawlFile (dc_CrawlFile dc)]) @
        (if dc_DiscV4Port dc = 0 then [] else [RSocket (dc_DiscV4Port dc)])
      else [])"
| "opened_by _ = []"

fun opened_in :: "main_effect \<Rightarrow> resource list" where
  "opened_in (Do e) = opened_by e"
| "opened_in (GoServe addr) = [RMetricsServer addr]"
| "opened_in _ = []"

fun closed_in :: "main_effect \<Rightarrow> resource list" where
  "closed_in (CloseHost name) = [RHost name]"
| "closed_in (CloseFile f) = [RLogFile f]"
| "closed_in _ = []"

definition opened :: "main_effect list \<Rightarrow> resource list" where
  "opened effs = concat (map opened_in effs)"

definition closed :: "main_effect list \<Rightarrow> resource list" where
  "closed effs = concat (map closed_in effs)"

text \<open>The resources the clean-up functions know about.\<close>

fun closable :: "resource \<Rightarrow> bool" where
  "closable (RHost name) = True"
| "closable (RLogFile f) = True"
| "closable _ = False"

text \<open>What a start of discovery opens is what \<^verbatim>\<open>StartDiscovery\<close> opens when it succeeds.\<close>

fun disc_opened :: "string \<Rightarrow> disc_effect \<Rightarrow> resource list" where
  "disc_opened f (StartV5 port nodes) = [RSocket port]"
| "disc_opened f (StartV4 port nodes) = [RSocket port]"
| "disc_opened f NotifyCrawlWriter = [RCrawlFile f]"
| "disc_opened f _ = []"

lemma StartDiscovery_opened:
  assumes "fst (StartDiscovery env dc) = Inr ()"
  shows "RNodeDB name # concat (map (disc_opened (dc_CrawlFile dc)) (snd (StartDiscovery env dc))) = opened_by (StartDisc name dc)"
  using assms
  by (auto simp: StartDiscovery_def start_crawl_def start_v4_def Let_def split: if_splits option.splits)

lemma mset_opened:
  "mset (filter closable (opened effs)) = mset (map RHost (made_hosts effs)) + mset (map RLogFile (opened_files effs))"
proof (induction effs)
  case (Cons e effs)
  have "mset (filter closable (opened_in e)) = mset (map RHost (made_hosts [e])) + mset (map RLogFile (opened_files [e]))"
  proof (cases e)
    case (Do x)
    then show ?thesis by (cases x) (auto simp: ledger_defs host_names_def opened_logs_def filter_empty_conv)
  qed (simp_all add: ledger_defs)
  with Cons show ?case by (simp add: opened_def ledger_defs)
qed (simp add: opened_def ledger_defs)

lemma mset_closed: "mset (closed effs) = mset (map RHost (closed_hosts effs)) + mset (map RLogFile (closed_files effs))"
proof (induction effs)
  case (Cons e effs)
  have "mset (closed_in e) = mset (map RHost (closed_hosts [e])) + mset (map RLogFile (closed_files [e]))"
    by (cases e) (simp_all add: ledger_defs)
  with Cons show ?case by (simp add: closed_def ledger_defs)
qed (simp add: closed_def ledger_defs)

lemma closed_none: "closed effs = [] \<longleftrightarrow> closed_hosts effs = [] \<and> closed_files effs = []"
  by (metis mset_closed mset_zero_iff map_is_Nil_conv add_0 union_eq_empty)

section \<open>Property\<close>

text \<open>
  C27: shutdown closes hosts and logs, and nothing else.  When a signal that \<^verbatim>\<open>main\<close> waits for ends the program (one that
  arrives during start-up, before \<^verbatim>\<open>signal.Notify\<close>, ends the process at once and is not modelled): every
  host that was created, and every attestation log that was opened, has been closed exactly once, the
  logs in the order they were opened, all of it after the context was cancelled and with nothing opened
  later; everything else that start-up opened, the metrics server, the sockets and node databases of discovery,
  the crawl file and the gossipsub traces, is left to the end of the process.  When the program exits
  because of an error it closes nothing and cancels nothing, and a missing, invalid or misspelt
  configuration stops it before it has any effect.
\<close>

theorem shutdown_closes_hosts_and_logs:
  assumes "main env fs path = ((end, effs), fs')" and "\<forall>xs. mset (me_close_order env xs) = mset xs"
  shows "if end = Shutdown
     then mset (closed effs) = mset (filter closable (opened effs)) \<and> distinct (made_hosts effs) \<and>
          closed_files effs = opened_files effs \<and>
          (\<exists>before after. effs = before @ CancelContext # after \<and> closed before = [] \<and> opened after = [])
     else closed effs = [] \<and> CancelContext \<notin> set effs \<and> (effs = [] \<longleftrightarrow> (\<forall>e. end \<noteq> StartFailed e))"
proof (cases "end = Shutdown")
  case False
  with assms(1) show ?thesis
    by (auto simp: main_def Let_def closed_none split: if_splits sum.splits option.splits prod.splits) (simp_all add: ledger_defs)
next
  case True
  with assms(1) have "main env fs path = ((Shutdown, effs), fs')" by simp
  then obtain cfg eff before where valid: "Validate cfg = None"
    and run: "main_run (me_start env) fs cfg (me_ForkDigest env (me_ToEpoch env (me_CurrentSlot env genesisTime))) = ((None, eff), fs')"
    and effs: "effs = before @ CancelContext #
        ((if Mode cfg = ''crawl'' then crawl_cleanup cfg else probe_cleanup env eff) @ [CancelContext])"
    and before: "closed_hosts before = []" "closed_files before = []" "made_hosts before = host_names eff" "opened_files before = opened_logs eff"
    by (rule main_Shutdown)
  define after where "after = (if Mode cfg = ''crawl'' then crawl_cleanup cfg else probe_cleanup env eff) @ [CancelContext]"
  note after = cleanup_ledger [OF valid run assms(2) after_def]
  have effs: "effs = before @ CancelContext # after" unfolding after_def by (rule effs)
  then have "made_hosts effs = host_names eff" "opened_files effs = opened_logs eff" "closed_files effs = opened_logs eff"
      "closed_hosts effs = closed_hosts after"
    by (simp_all add: ledger_cancel before after)
  moreover from this after(1) have "mset (closed effs) = mset (filter closable (opened effs))"
    unfolding mset_closed mset_opened by simp
  moreover have "opened after = []"
    by (auto simp: after_def opened_def crawl_cleanup_def probe_cleanup_def)
  moreover have "closed before = []" using before by (simp add: closed_none)
  ultimately show ?thesis using True effs main_run_ledger(1) [OF valid run] by auto
qed

text \<open>A configuration file that the parser turns into the two-instance configuration of the other examples.\<close>

definition demo_main_env :: "(u8, unit) main_env" where
  "demo_main_env = \<lparr>me_start = demo_start_env, me_yaml = (\<lambda>_ _. Some (demo_config ''a'' ''b'')), me_CurrentSlot = (\<lambda>_. 64),
     me_ToEpoch = (\<lambda>s. s div 32), me_ForkDigest = (\<lambda>_. [1, 2, 3, 4]), me_signal = ''interrupt'', me_close_order = rev\<rparr>"

definition demo_main_fs :: file_system where
  "demo_main_fs = demo_fs\<lparr>fs_files := [''c.yaml'' \<mapsto> []]\<rparr>"

definition demo_loaded :: Config where
  "demo_loaded = (demo_config ''a'' ''b'')\<lparr>Instances := map default_max_peers [demo_inst ''a'', demo_inst ''b'']\<rparr>"

lemma demo_load: "load_config demo_main_env demo_main_fs ''c.yaml'' = Inr demo_loaded"
proof -
  have "Validate demo_loaded = None"
    by (simp add: demo_loaded_def demo_config_def default_config_def Validate_def demo_inst_def all_ports_def TCPPort_def QUICPort_def
      DiscV5Port_def addPort_def first_error_def default_max_peers_def)
  then show ?thesis
    by (simp add: load_config_def Load_def ReadFile_def demo_main_fs_def demo_fs_def demo_main_env_def demo_loaded_def Let_def)
qed

lemma demo_main_shuts_down: "\<exists>effs fs'. main demo_main_env demo_main_fs ''c.yaml'' = ((Shutdown, effs), fs')"
proof -
  have "KeyFile demo_loaded 0 = Inr ''keys/a.key''" "KeyFile demo_loaded (Suc 0) = Inr ''keys/b.key''"
    using demo_keys by (simp_all add: KeyFile_def demo_loaded_def default_max_peers_def demo_inst_def demo_config_def)
  then have "fst (fst (main_run demo_start_env demo_main_fs demo_loaded [1, 2, 3, 4])) = None"
    unfolding demo_main_fs_def by (intro demo_probe_starts) (simp_all add: demo_loaded_def demo_config_def default_config_def)
  then obtain eff fs' where run: "main_run demo_start_env demo_main_fs demo_loaded [1, 2, 3, 4] = ((None, eff), fs')"
    by (metis prod.collapse)
  have "LogLevel demo_loaded = ''info''" by (simp add: demo_loaded_def demo_config_def default_config_def)
  with run demo_load show ?thesis by (simp add: main_def demo_main_env_def Let_def documented_levels)
qed

theorem shutdown_closes_hosts_and_logs_witness:
  "\<exists>effs fs'. main demo_main_env demo_main_fs ''c.yaml'' = ((Shutdown, effs), fs') \<and>
     mset (closed effs) = mset (filter closable (opened effs)) \<and> closed_files effs = opened_files effs"
proof -
  obtain effs fs' where run: "main demo_main_env demo_main_fs ''c.yaml'' = ((Shutdown, effs), fs')"
    using demo_main_shuts_down by blast
  have "\<forall>xs. mset (me_close_order demo_main_env xs) = mset xs" by (simp add: demo_main_env_def)
  from shutdown_closes_hosts_and_logs [OF run this] run show ?thesis by auto
qed

end
