(* ===== verification/Block_Tracker.thy ===== *)
theory Block_Tracker
  imports Go_Prelude
begin

text \<open>
  \<^verbatim>\<open>node/block.go\<close>: the first arrival time of the block of each slot, and the listener that records it.
  A slot is a 64-bit unsigned number (Prysm's \<^verbatim>\<open>primitives.Slot\<close>), so subtraction wraps.  Outside
  the repository, and arguments here: the decoder of a gossip message (\<open>decode\<close>, giving the
  block's slot or failing) and Prysm's \<^verbatim>\<open>slots.StartTime\<close> (\<open>start_time\<close>, which may fail).
\<close>

section \<open>State and operations\<close>

type_synonym slot = u64

record BlockTracker =
  blocks :: "slot \<rightharpoonup> time"

definition NewBlockTracker :: BlockTracker where
  "NewBlockTracker = \<lparr>blocks = Map.empty\<rparr>"

definition Record :: "BlockTracker \<Rightarrow> slot \<Rightarrow> time \<Rightarrow> BlockTracker" where
  "Record bt s t = (case blocks bt s of None \<Rightarrow> bt\<lparr>blocks := (blocks bt)(s \<mapsto> t)\<rparr> | Some _ \<Rightarrow> bt)"

definition GetBlockArrival :: "BlockTracker \<Rightarrow> slot \<Rightarrow> time option" where
  "GetBlockArrival bt s = blocks bt s"

definition cleanup :: "BlockTracker \<Rightarrow> slot \<Rightarrow> BlockTracker" where
  "cleanup bt minSlot = bt\<lparr>blocks := (\<lambda>s. if s < minSlot then None else blocks bt s)\<rparr>"

section \<open>The listener\<close>

text \<open>What \<^verbatim>\<open>sub.Next\<close> delivers, with the time at which a message is read.\<close>

datatype block_in = BlockSubErr | BlockMsg bytes time

record block_state =
  bs_tracker :: BlockTracker
  bs_lastCleanup :: slot
  bs_received :: nat
  bs_observed :: "duration list"
  bs_log :: "(slot \<times> int) list"

definition block_start :: "BlockTracker \<Rightarrow> block_state" where
  "block_start bt = \<lparr>bs_tracker = bt, bs_lastCleanup = 0, bs_received = 0, bs_observed = [], bs_log = []\<rparr>"

definition on_block ::
  "(bytes \<Rightarrow> slot option) \<Rightarrow> (time \<Rightarrow> slot \<Rightarrow> time option) \<Rightarrow> time \<Rightarrow> bool \<Rightarrow> block_state \<Rightarrow> bytes \<Rightarrow> time \<Rightarrow> block_state" where
  "on_block decode start_time genesis has_logger st data recv =
     (case decode data of
        None \<Rightarrow> st
      | Some s \<Rightarrow>
         (case start_time genesis s of
            None \<Rightarrow> st
          | Some slotStart \<Rightarrow>
             (let into = time_sub recv slotStart;
                  st = st\<lparr>bs_tracker := Record (bs_tracker st) s recv,
                          bs_received := bs_received st + 1,
                          bs_observed := bs_observed st @ [into]\<rparr>;
                  st = (if has_logger then st\<lparr>bs_log := bs_log st @ [(s, Milliseconds into)]\<rparr> else st)
              in if s - bs_lastCleanup st > 64
                 then st\<lparr>bs_lastCleanup := s, bs_tracker := cleanup (bs_tracker st) (s - 64)\<rparr>
                 else st)))"

fun ListenForBlocks ::
  "(bytes \<Rightarrow> slot option) \<Rightarrow> (time \<Rightarrow> slot \<Rightarrow> time option) \<Rightarrow> time \<Rightarrow> bool \<Rightarrow> block_state \<Rightarrow> block_in list \<Rightarrow> block_state" where
  "ListenForBlocks decode start_time genesis has_logger st [] = st"
| "ListenForBlocks decode start_time genesis has_logger st (BlockSubErr # msgs) = st"
| "ListenForBlocks decode start_time genesis has_logger st (BlockMsg data recv # msgs) =
     ListenForBlocks decode start_time genesis has_logger
       (on_block decode start_time genesis has_logger st data recv) msgs"

section \<open>Laws of the tracker\<close>

lemma Get_Record [simp]:
  "GetBlockArrival (Record bt s t) s' =
     (if s' = s \<and> GetBlockArrival bt s = None then Some t else GetBlockArrival bt s')"
  by (auto simp: GetBlockArrival_def Record_def split: option.splits)

lemma Get_cleanup [simp]:
  "GetBlockArrival (cleanup bt m) s = (if s < m then None else GetBlockArrival bt s)"
  by (simp add: GetBlockArrival_def cleanup_def)

lemma Get_New [simp]: "GetBlockArrival NewBlockTracker s = None"
  by (simp add: GetBlockArrival_def NewBlockTracker_def)

text \<open>
  The first block of a slot wins.  After any sequence of \<^verbatim>\<open>Record\<close> calls on a new tracker the
  arrival time of a slot is the time of the first call for that slot, and a slot without a call
  has none.
\<close>

lemma first_arrival_wins:
  "GetBlockArrival (fold (\<lambda>(s, t) bt. Record bt s t) arrivals NewBlockTracker) s = map_of arrivals s"
proof -
  have "GetBlockArrival (fold (\<lambda>(s, t) bt. Record bt s t) arrivals bt) s =
      (case GetBlockArrival bt s of Some t \<Rightarrow> Some t | None \<Rightarrow> map_of arrivals s)" for bt
    by (induction arrivals arbitrary: bt) (auto split: option.splits)
  then show ?thesis by simp
qed

section \<open>Runs of the listener\<close>

text \<open>
  While slots do not go back, the cleanup point is never ahead of a slot, and what it removes is
  more than 64 slots old.
\<close>

definition bs_inv :: "slot \<Rightarrow> (slot \<Rightarrow> time option) \<Rightarrow> block_state \<Rightarrow> bool" where
  "bs_inv hi first st \<longleftrightarrow>
     unat (bs_lastCleanup st) \<le> unat hi \<and> unat hi \<le> unat (bs_lastCleanup st) + 64 \<and>
     (\<forall>s. unat hi \<le> unat s + 64 \<longrightarrow> GetBlockArrival (bs_tracker st) s = first s) \<and>
     (\<forall>s. GetBlockArrival (bs_tracker st) s \<noteq> None \<longrightarrow>
        unat (bs_lastCleanup st) \<le> unat s + 64 \<and> unat s \<le> unat hi)"

lemma unat_minus_ge: "unat b \<le> unat a \<Longrightarrow> unat (a - b) = unat a - unat (b::slot)"
  by (simp add: unat_sub word_le_nat_alt)

lemma on_block_tracker:
  assumes "decode data = Some s" and "start_time genesis s = Some t0"
  shows "bs_lastCleanup (on_block decode start_time genesis lg st data recv) =
           (if s - bs_lastCleanup st > 64 then s else bs_lastCleanup st)"
    and "bs_tracker (on_block decode start_time genesis lg st data recv) =
           (if s - bs_lastCleanup st > 64 then cleanup (Record (bs_tracker st) s recv) (s - 64)
            else Record (bs_tracker st) s recv)"
  using assms by (simp_all add: on_block_def Let_def)

lemma on_block_get:
  assumes "decode data = Some s" and "start_time genesis s = Some t0" and "unat (bs_lastCleanup st) \<le> unat s"
  shows "bs_lastCleanup (on_block decode start_time genesis lg st data recv) =
           (if unat (bs_lastCleanup st) + 64 < unat s then s else bs_lastCleanup st)"
    and "GetBlockArrival (bs_tracker (on_block decode start_time genesis lg st data recv)) x =
           (if unat (bs_lastCleanup st) + 64 < unat s \<and> unat x + 64 < unat s then None
            else if x = s \<and> GetBlockArrival (bs_tracker st) s = None then Some recv
            else GetBlockArrival (bs_tracker st) x)"
proof -
  have big: "s - bs_lastCleanup st > 64 \<longleftrightarrow> unat (bs_lastCleanup st) + 64 < unat s"
    using unat_minus_ge [OF assms(3)] by (simp add: word_less_nat_alt) linarith
  have old: "x < s - 64 \<longleftrightarrow> unat x + 64 < unat s" if "64 < unat s"
    using that unat_minus_ge [of 64 s] by (auto simp: word_less_nat_alt)
  note tr = on_block_tracker [where decode = decode and start_time = start_time, OF assms(1,2)]
  show "bs_lastCleanup (on_block decode start_time genesis lg st data recv) =
      (if unat (bs_lastCleanup st) + 64 < unat s then s else bs_lastCleanup st)"
    by (simp add: tr big)
  show "GetBlockArrival (bs_tracker (on_block decode start_time genesis lg st data recv)) x =
      (if unat (bs_lastCleanup st) + 64 < unat s \<and> unat x + 64 < unat s then None
       else if x = s \<and> GetBlockArrival (bs_tracker st) s = None then Some recv
       else GetBlockArrival (bs_tracker st) x)"
    using old by (auto simp: tr big)
qed

lemma on_block_inv:
  assumes inv: "bs_inv hi first st" and le: "unat hi \<le> unat s"
    and dec: "decode data = Some s" "start_time genesis s = Some t0"
  shows "bs_inv s (\<lambda>x. if x = s \<and> first x = None then Some recv else first x)
           (on_block decode start_time genesis lg st data recv)"
proof -
  have lc: "unat (bs_lastCleanup st) \<le> unat s" using inv le by (simp add: bs_inv_def)
  have get: "GetBlockArrival (bs_tracker st) x = first x" if "unat s \<le> unat x + 64" for x
    using inv le that by (simp add: bs_inv_def)
  have bnd: "unat (bs_lastCleanup st) \<le> unat x + 64 \<and> unat x \<le> unat s"
    if "GetBlockArrival (bs_tracker st) x = Some t" for x t
    using inv that le by (auto simp: bs_inv_def)
  note st' = on_block_get [where decode = decode and start_time = start_time, OF dec lc]
  show ?thesis
    unfolding bs_inv_def st'
  proof (intro conjI allI impI, goal_cases)
    case 1 then show ?case using lc by simp
  next
    case 2 then show ?case by simp
  next
    case (3 x) then show ?case using get [of x] by auto
  next
    case (4 x) then show ?case using lc by (auto split: if_splits dest: bnd)
  next
    case (5 x) then show ?case by (auto split: if_splits dest: bnd)
  qed
qed

text \<open>The messages of a run that carry a block, with the slot and the arrival time of each.\<close>

fun block_arrivals :: "(bytes \<Rightarrow> slot option) \<Rightarrow> (time \<Rightarrow> slot \<Rightarrow> time option) \<Rightarrow> time \<Rightarrow> block_in list \<Rightarrow> (slot \<times> time) list" where
  "block_arrivals decode start_time genesis [] = []"
| "block_arrivals decode start_time genesis (BlockSubErr # msgs) = []"
| "block_arrivals decode start_time genesis (BlockMsg data recv # msgs) =
     (case decode data of
        None \<Rightarrow> block_arrivals decode start_time genesis msgs
      | Some s \<Rightarrow>
         (case start_time genesis s of
            None \<Rightarrow> block_arrivals decode start_time genesis msgs
          | Some _ \<Rightarrow> (s, recv) # block_arrivals decode start_time genesis msgs))"

lemma on_block_ignored:
  "decode data = None \<Longrightarrow> on_block decode start_time genesis lg st data recv = st"
  "decode data = Some s \<Longrightarrow> start_time genesis s = None \<Longrightarrow>
     on_block decode start_time genesis lg st data recv = st"
  by (simp_all add: on_block_def)

lemma ListenForBlocks_inv:
  assumes "bs_inv hi first st"
    and "sorted (map unat (hi # map fst (block_arrivals decode start_time genesis msgs)))"
  shows "bs_inv (last (hi # map fst (block_arrivals decode start_time genesis msgs)))
           (\<lambda>x. case first x of Some t \<Rightarrow> Some t | None \<Rightarrow> map_of (block_arrivals decode start_time genesis msgs) x)
           (ListenForBlocks decode start_time genesis lg st msgs)"
  using assms
proof (induction msgs arbitrary: hi first st)
  case Nil
  then show ?case by (simp add: bs_inv_def split: option.splits)
next
  case (Cons m msgs)
  show ?case
  proof (cases m)
    case BlockSubErr
    with Cons.prems show ?thesis by (simp add: bs_inv_def split: option.splits)
  next
    case (BlockMsg data recv)
    show ?thesis
    proof (cases "\<exists>s t0. decode data = Some s \<and> start_time genesis s = Some t0")
      case False
      then have "on_block decode start_time genesis lg st data recv = st"
        by (cases "decode data") (auto simp: on_block_ignored)
      then have lb: "ListenForBlocks decode start_time genesis lg st (m # msgs) =
          ListenForBlocks decode start_time genesis lg st msgs" using BlockMsg by simp
      have ba: "block_arrivals decode start_time genesis (m # msgs) = block_arrivals decode start_time genesis msgs"
        using False BlockMsg by (auto split: option.splits)
      show ?thesis unfolding lb ba using Cons.IH [OF Cons.prems(1)] Cons.prems(2) unfolding ba .
    next
      case True
      then obtain s t0 where d: "decode data = Some s" "start_time genesis s = Some t0" by blast
      let ?first = "\<lambda>x. if x = s \<and> first x = None then Some recv else first x"
      from Cons.prems BlockMsg d have "bs_inv s ?first (on_block decode start_time genesis lg st data recv)"
        by (intro on_block_inv [OF Cons.prems(1)]) auto
      from Cons.IH [OF this] Cons.prems BlockMsg d
      have "bs_inv (last (s # map fst (block_arrivals decode start_time genesis msgs)))
         (\<lambda>x. case ?first x of Some t \<Rightarrow> Some t | None \<Rightarrow> map_of (block_arrivals decode start_time genesis msgs) x)
         (ListenForBlocks decode start_time genesis lg st (m # msgs))" by simp
      moreover have "(\<lambda>x. case ?first x of Some t \<Rightarrow> Some t | None \<Rightarrow> map_of (block_arrivals decode start_time genesis msgs) x) =
         (\<lambda>x. case first x of Some t \<Rightarrow> Some t | None \<Rightarrow> map_of (block_arrivals decode start_time genesis (m # msgs)) x)"
        using BlockMsg d by (auto simp: fun_eq_iff split: option.splits)
      ultimately show ?thesis using BlockMsg d by simp
    qed
  qed
qed

lemma block_start_inv: "bs_inv 0 (\<lambda>_. None) (block_start NewBlockTracker)"
  by (simp add: bs_inv_def block_start_def)

text \<open>
  C17: the tracker remembers two epochs and forgets the rest.  As long as the slots of the blocks
  received do not go back, after any run of the listener a slot at most 64 behind the last block
  has exactly the arrival time of its first block (or none, if no block came), and the slots
  remembered lie within 128 of the last one, so the tracker stays bounded.
\<close>

theorem listener_keeps_recent_blocks:
  assumes "sorted (map (unat \<circ> fst) (block_arrivals decode start_time genesis msgs))"
    and "newest = last (0 # map fst (block_arrivals decode start_time genesis msgs))"
    and "st = ListenForBlocks decode start_time genesis lg (block_start NewBlockTracker) msgs"
  shows "(unat newest \<le> unat s + 64 \<longrightarrow>
            GetBlockArrival (bs_tracker st) s = map_of (block_arrivals decode start_time genesis msgs) s) \<and>
         (GetBlockArrival (bs_tracker st) s \<noteq> None \<longrightarrow> unat newest \<le> unat s + 128 \<and> unat s \<le> unat newest)"
proof -
  have "sorted (map unat (0 # map fst (block_arrivals decode start_time genesis msgs)))"
    using assms(1) by (simp add: comp_def)
  from ListenForBlocks_inv [OF block_start_inv this, of lg, folded assms(2,3)]
  have "bs_inv newest (map_of (block_arrivals decode start_time genesis msgs)) st" by simp
  then show ?thesis by (fastforce simp: bs_inv_def)
qed

text \<open>A decoder and a clock for the witnesses: a message is the slot in one byte; slots last 12 seconds.\<close>

definition demo_decode :: "bytes \<Rightarrow> slot option" where
  "demo_decode data = (case data of [b] \<Rightarrow> Some (ucast b) | _ \<Rightarrow> None)"

definition demo_start :: "time \<Rightarrow> slot \<Rightarrow> time option" where
  "demo_start genesis s = Some (genesis + 12 * Second * int (unat s))"

definition demo_blocks :: "block_in list" where
  "demo_blocks = [BlockMsg [3] 40, BlockMsg [] 41, BlockMsg [90] 1090, BlockMsg [90] 1095, BlockMsg [120] 1400]"

lemma demo_block_arrivals:
  "block_arrivals demo_decode demo_start 0 demo_blocks = [(3, 40), (90, 1090), (90, 1095), (120, 1400)]"
  by (simp add: demo_blocks_def demo_decode_def demo_start_def)

theorem listener_keeps_recent_blocks_witness:
  "GetBlockArrival (bs_tracker (ListenForBlocks demo_decode demo_start 0 True (block_start NewBlockTracker) demo_blocks)) 90 = Some 1090 \<and>
   GetBlockArrival (bs_tracker (ListenForBlocks demo_decode demo_start 0 True (block_start NewBlockTracker) demo_blocks)) 60 = None"
proof -
  have "sorted (map (unat \<circ> fst) (block_arrivals demo_decode demo_start 0 demo_blocks))"
    and "120 = last (0 # map fst (block_arrivals demo_decode demo_start 0 demo_blocks))"
    by (simp_all add: demo_block_arrivals)
  note keeps = listener_keeps_recent_blocks [OF this refl, THEN conjunct1, rule_format, unfolded demo_block_arrivals]
  show ?thesis by (intro conjI; subst keeps) simp_all
qed

text \<open>
  C36: one block from the first two epochs empties the tracker.  The cleanup test and the cleanup
  bound are unsigned subtractions.  When the listener has already cleaned up at some slot and a
  block with a slot below 64 arrives (nothing validates the slot: the topic's validator accepts
  every message), both wrap around, and every remembered block is removed, so the attestations
  of the slots in progress are logged as if their blocks were missed.
\<close>

theorem stale_block_wipes_tracker:
  assumes "decode data = Some s" and "start_time genesis s = Some t0"
    and "unat s < 64" and "unat s < unat (bs_lastCleanup st)" and "unat (bs_lastCleanup st) < 2 ^ 63"
    and "unat x < 2 ^ 63"
  shows "GetBlockArrival (bs_tracker (on_block decode start_time genesis lg st data recv)) x = None"
proof -
  let ?L = "bs_lastCleanup st"
  have p: "(2::nat) ^ 63 + 64 < 2 ^ 64" by simp
  have "unat (s - ?L) = 2 ^ 64 + unat s - unat ?L"
    by (subst unat_sub_if') (use assms(4) in simp)
  with p assms(5) have "64 < unat (s - ?L)" by linarith
  then have big: "64 < s - ?L" by (simp add: word_less_nat_alt)
  have "unat (s - 64) = 2 ^ 64 + unat s - 64"
    by (subst unat_sub_if') (use assms(3) in simp)
  with p assms(6) have "unat x < unat (s - 64)" by linarith
  then have "x < s - 64" by (simp only: word_less_nat_alt)
  with big show ?thesis
    using on_block_tracker(2) [where decode = decode and start_time = start_time, OF assms(1,2)] by simp
qed

theorem stale_block_wipes_tracker_witness:
  "GetBlockArrival (bs_tracker (on_block demo_decode demo_start 0 True
     (ListenForBlocks demo_decode demo_start 0 True (block_start NewBlockTracker) demo_blocks) [5] 1500)) 120 = None"
  by (rule stale_block_wipes_tracker [where s = 5 and ?t0.0 = "60 * Second"])
    (simp_all add: demo_blocks_def demo_decode_def demo_start_def on_block_def block_start_def Let_def Second_def)

end
