(* ===== verification/Attestation.thy ===== *)
theory Attestation
  imports Block_Tracker
begin

text \<open>
  \<^verbatim>\<open>node/attestation.go\<close>: attestations are buffered per slot and logged once the slot is over, when
  it is known whether and when its block arrived.  Outside the repository, and arguments here: the
  decoder (\<open>decode\<close>), Prysm's \<^verbatim>\<open>slots.CurrentSlot\<close> (\<open>current_slot\<close>, of the genesis time and the
  present) and \<^verbatim>\<open>slots.StartTime\<close> (\<open>start_time\<close>).  The file logger is the one \<^verbatim>\<open>runProbe\<close> always
  creates; the durations given to a histogram are kept as durations, before \<^verbatim>\<open>Seconds\<close> turns them
  into floats.
\<close>

section \<open>Collecting\<close>

record bufferedAttestation =
  receiveTime :: time
  subnetID :: u64
  att_slot :: slot
  attesterIdx :: u64

text \<open>What \<^verbatim>\<open>Sub.Next\<close> delivers, with the time read when the message has been decoded.\<close>

datatype att_in = AttSubErr | AttMsg bytes time

text \<open>The values one \<^verbatim>\<open>collectSubnet\<close> sends on the channel.\<close>

fun collectSubnet :: "(bytes \<Rightarrow> (slot \<times> u64) option) \<Rightarrow> u64 \<Rightarrow> att_in list \<Rightarrow> bufferedAttestation list" where
  "collectSubnet decode subnet [] = []"
| "collectSubnet decode subnet (AttSubErr # msgs) = []"
| "collectSubnet decode subnet (AttMsg data now # msgs) =
     (case decode data of
        None \<Rightarrow> collectSubnet decode subnet msgs
      | Some (s, idx) \<Rightarrow>
          \<lparr>receiveTime = now, subnetID = subnet, att_slot = s, attesterIdx = idx\<rparr>
            # collectSubnet decode subnet msgs)"

section \<open>Flushing\<close>

text \<open>Go's zero \<^verbatim>\<open>time.Time\<close>, January 1 of year 1: what \<^verbatim>\<open>StartTime\<close> returns beside an error.\<close>

definition zero_time :: time where
  "zero_time = - 62135596800 * Second"

text \<open>The duration of the new timer; \<^verbatim>\<open>CurrentSlot\<close> reads the clock at \<open>now1\<close>, \<^verbatim>\<open>time.Until\<close> at \<open>now2\<close>.\<close>

definition nextSlotTimer ::
  "(time \<Rightarrow> time \<Rightarrow> slot) \<Rightarrow> (time \<Rightarrow> slot \<Rightarrow> time option) \<Rightarrow> time \<Rightarrow> time \<Rightarrow> time \<Rightarrow> duration" where
  "nextSlotTimer current_slot start_time genesis now1 now2 =
     (let nextStart = (case start_time genesis (current_slot genesis now1 + 1) of
                         Some t \<Rightarrow> t | None \<Rightarrow> zero_time)
      in time_sub nextStart now2)"

text \<open>
  The local state of \<^verbatim>\<open>flushSlots\<close>, and the goroutines it has started, each with its slot and its
  entries.
\<close>

record flush_state =
  fl_pending :: "slot \<rightharpoonup> bufferedAttestation list"
  fl_timer :: duration
  fl_jobs :: "(slot \<times> bufferedAttestation list) list"

text \<open>
  One turn of the \<^verbatim>\<open>select\<close>.  \<open>FlushTimer now order now1 now2\<close>: the timer fires, \<^verbatim>\<open>CurrentSlot\<close> reads
  the clock at \<open>now\<close>, the range over the map visits the keys in the order \<open>order\<close>, and the next
  timer is set at \<open>now1\<close> and \<open>now2\<close>.
\<close>

datatype flush_in =
    FlushCtxDone
  | FlushEntry bufferedAttestation
  | FlushTimer time "slot list" time time

definition flush_start ::
  "(time \<Rightarrow> time \<Rightarrow> slot) \<Rightarrow> (time \<Rightarrow> slot \<Rightarrow> time option) \<Rightarrow> time \<Rightarrow> time \<Rightarrow> time \<Rightarrow> flush_state" where
  "flush_start current_slot start_time genesis now1 now2 =
     \<lparr>fl_pending = Map.empty, fl_timer = nextSlotTimer current_slot start_time genesis now1 now2, fl_jobs = []\<rparr>"

definition on_entry :: "flush_state \<Rightarrow> bufferedAttestation \<Rightarrow> flush_state" where
  "on_entry st e =
     (let old = (case fl_pending st (att_slot e) of Some es \<Rightarrow> es | None \<Rightarrow> [])
      in st\<lparr>fl_pending := (fl_pending st)(att_slot e \<mapsto> old @ [e])\<rparr>)"

fun flush_keys :: "slot \<Rightarrow> slot list \<Rightarrow> flush_state \<Rightarrow> flush_state" where
  "flush_keys completedSlot [] st = st"
| "flush_keys completedSlot (s # order) st =
     flush_keys completedSlot order
       (case fl_pending st s of
          None \<Rightarrow> st
        | Some entries \<Rightarrow>
            if s \<le> completedSlot
            then st\<lparr>fl_jobs := fl_jobs st @ [(s, entries)], fl_pending := (fl_pending st)(s := None)\<rparr>
            else st)"

definition on_timer ::
  "(time \<Rightarrow> time \<Rightarrow> slot) \<Rightarrow> (time \<Rightarrow> slot \<Rightarrow> time option) \<Rightarrow> time \<Rightarrow> flush_state \<Rightarrow> time \<Rightarrow> slot list \<Rightarrow> time \<Rightarrow> time \<Rightarrow> flush_state" where
  "on_timer current_slot start_time genesis st now order now1 now2 =
     (let completedSlot = current_slot genesis now - 1
      in (flush_keys completedSlot order st)\<lparr>fl_timer := nextSlotTimer current_slot start_time genesis now1 now2\<rparr>)"

fun flushSlots ::
  "(time \<Rightarrow> time \<Rightarrow> slot) \<Rightarrow> (time \<Rightarrow> slot \<Rightarrow> time option) \<Rightarrow> time \<Rightarrow> flush_state \<Rightarrow> flush_in list \<Rightarrow> flush_state" where
  "flushSlots cs stt genesis st [] = st"
| "flushSlots cs stt genesis st (FlushCtxDone # evs) = st"
| "flushSlots cs stt genesis st (FlushEntry e # evs) = flushSlots cs stt genesis (on_entry st e) evs"
| "flushSlots cs stt genesis st (FlushTimer now order now1 now2 # evs) =
     flushSlots cs stt genesis (on_timer cs stt genesis st now order now1 now2) evs"

section \<open>Logging a slot\<close>

record att_metrics =
  AttestationsReceived :: "string \<Rightarrow> nat"
  AttestationLatency :: "string \<Rightarrow> duration list"
  AttestationLatencyFromFourSeconds :: "string \<Rightarrow> duration list"
  AttestationArrivalInSlot :: "string \<Rightarrow> duration list"
  LateAttestations :: "string \<Rightarrow> nat"

record att_line =
  ln_subnet :: u64
  ln_slot :: slot
  ln_timeInSlotMs :: int
  ln_arrivalDelayMs :: int
  ln_attester :: u64
  ln_block :: string
  ln_blockTimeInSlotMs :: "int option"

definition label_inc :: "string \<Rightarrow> (string \<Rightarrow> nat) \<Rightarrow> string \<Rightarrow> nat" where
  "label_inc l m = m(l := m l + 1)"

definition label_observe :: "string \<Rightarrow> 'a \<Rightarrow> (string \<Rightarrow> 'a list) \<Rightarrow> string \<Rightarrow> 'a list" where
  "label_observe l x m = m(l := m l @ [x])"

text \<open>Status, reference time of the block, and its time in the slot (the zero duration when missed).\<close>

definition block_status :: "BlockTracker option \<Rightarrow> slot \<Rightarrow> time \<Rightarrow> string \<times> time \<times> duration" where
  "block_status tracker s slotStart =
     (case tracker of
        Some bt \<Rightarrow>
          (case GetBlockArrival bt s of
             Some t \<Rightarrow> (''proposed'', t, time_sub t slotStart)
           | None \<Rightarrow> (''missed'', time_add slotStart (4 * Second), 0))
      | None \<Rightarrow> (''missed'', time_add slotStart (4 * Second), 0))"

text \<open>The body of the loop: the metrics of an entry, then its line.\<close>

definition count_entry ::
  "time \<Rightarrow> string \<times> time \<times> duration \<Rightarrow> bufferedAttestation \<Rightarrow> att_metrics \<Rightarrow> att_metrics" where
  "count_entry slotStart status e m =
     (let (blockStatus, blockTime, blockTimeInSlot) = status;
          timeIntoSlot = time_sub (receiveTime e) slotStart;
          arrivalDelay = time_sub (receiveTime e) blockTime;
          subnetLabel = dec_u64 (subnetID e);
          m = m\<lparr>AttestationsReceived := label_inc subnetLabel (AttestationsReceived m)\<rparr>;
          m = m\<lparr>AttestationLatency := label_observe subnetLabel arrivalDelay (AttestationLatency m)\<rparr>;
          m = m\<lparr>AttestationLatencyFromFourSeconds :=
                  label_observe subnetLabel (wrap64 (timeIntoSlot - 4 * Second)) (AttestationLatencyFromFourSeconds m)\<rparr>;
          m = m\<lparr>AttestationArrivalInSlot := label_observe subnetLabel timeIntoSlot (AttestationArrivalInSlot m)\<rparr>
      in if timeIntoSlot > 8 * Second
         then m\<lparr>LateAttestations := label_inc subnetLabel (LateAttestations m)\<rparr> else m)"

definition write_entry ::
  "slot \<Rightarrow> time \<Rightarrow> string \<times> time \<times> duration \<Rightarrow> bufferedAttestation \<Rightarrow> att_line list \<Rightarrow> att_line list" where
  "write_entry s slotStart status e ls =
     (let (blockStatus, blockTime, blockTimeInSlot) = status;
          timeIntoSlot = time_sub (receiveTime e) slotStart;
          arrivalDelay = time_sub (receiveTime e) blockTime;
          fileAttrs = \<lparr>ln_subnet = subnetID e, ln_slot = s, ln_timeInSlotMs = Milliseconds timeIntoSlot,
                       ln_arrivalDelayMs = Milliseconds arrivalDelay, ln_attester = attesterIdx e,
                       ln_block = blockStatus, ln_blockTimeInSlotMs = None\<rparr>;
          fileAttrs = (if blockStatus = ''proposed''
                       then fileAttrs\<lparr>ln_blockTimeInSlotMs := Some (Milliseconds blockTimeInSlot)\<rparr> else fileAttrs)
      in ls @ [fileAttrs])"

definition log_entry ::
  "slot \<Rightarrow> time \<Rightarrow> string \<times> time \<times> duration \<Rightarrow> bufferedAttestation \<Rightarrow> att_metrics \<times> att_line list \<Rightarrow> att_metrics \<times> att_line list" where
  "log_entry s slotStart status e out =
     (count_entry slotStart status e (fst out), write_entry s slotStart status e (snd out))"

definition logSlotAttestations ::
  "(time \<Rightarrow> slot \<Rightarrow> time option) \<Rightarrow> slot \<Rightarrow> bufferedAttestation list \<Rightarrow> time \<Rightarrow> BlockTracker option \<Rightarrow> att_metrics \<times> att_line list \<Rightarrow> att_metrics \<times> att_line list" where
  "logSlotAttestations start_time s entries genesis tracker out =
     (case start_time genesis s of
        None \<Rightarrow> out
      | Some slotStart \<Rightarrow> fold (log_entry s slotStart (block_status tracker s slotStart)) entries out)"

section \<open>Conservation\<close>

definition flushed :: "flush_state \<Rightarrow> slot \<Rightarrow> bufferedAttestation list" where
  "flushed st s = concat (map snd (filter (\<lambda>j. fst j = s) (fl_jobs st)))"

definition waiting :: "flush_state \<Rightarrow> slot \<Rightarrow> bufferedAttestation list" where
  "waiting st s = (case fl_pending st s of Some es \<Rightarrow> es | None \<Rightarrow> [])"

fun entries_of :: "flush_in list \<Rightarrow> bufferedAttestation list" where
  "entries_of [] = []"
| "entries_of (FlushCtxDone # evs) = []"
| "entries_of (FlushEntry e # evs) = e # entries_of evs"
| "entries_of (FlushTimer now order now1 now2 # evs) = entries_of evs"

lemma on_entry_view:
  "flushed (on_entry st e) s = flushed st s"
  "waiting (on_entry st e) s = waiting st s @ (if att_slot e = s then [e] else [])"
  by (auto simp: on_entry_def flushed_def waiting_def Let_def)

lemma flush_keys_view: "flushed (flush_keys c order st) s @ waiting (flush_keys c order st) s = flushed st s @ waiting st s"
proof (induction order arbitrary: st)
  case (Cons k order)
  then show ?case by (auto simp: flushed_def waiting_def split: option.splits)
qed simp

lemma flush_keys_late: "\<not> s \<le> c \<Longrightarrow> flushed (flush_keys c order st) s = flushed st s"
proof (induction order arbitrary: st)
  case (Cons k order)
  then show ?case by (auto simp: flushed_def split: option.splits)
qed simp

lemma flush_keys_pending:
  "fl_pending (flush_keys c order st) s = (if s \<in> set order \<and> s \<le> c then None else fl_pending st s)"
  by (induction order arbitrary: st) (auto split: option.splits)

lemma on_timer_view:
  "flushed (on_timer cs stt g st now order n1 n2) = flushed (flush_keys (cs g now - 1) order st)"
  "waiting (on_timer cs stt g st now order n1 n2) = waiting (flush_keys (cs g now - 1) order st)"
  by (auto simp: on_timer_def flushed_def waiting_def fun_eq_iff)

lemma flushSlots_view:
  "flushed (flushSlots cs stt g st evs) s @ waiting (flushSlots cs stt g st evs) s =
     flushed st s @ waiting st s @ filter (\<lambda>e. att_slot e = s) (entries_of evs)"
  by (induction cs stt g st evs rule: flushSlots.induct)
    (auto simp: on_entry_view on_timer_view flush_keys_view)

lemma flush_start_view [simp]:
  "flushed (flush_start cs stt g n1 n2) s = []" "waiting (flush_start cs stt g n1 n2) s = []"
  by (simp_all add: flush_start_def flushed_def waiting_def)

text \<open>
  C9: no attestation is lost, duplicated, moved to another slot or reordered.  After any sequence
  of entries and timer ticks, the entries received for a slot are, in order of arrival, those
  handed to the logging goroutines of that slot followed by those still pending, whatever the
  order in which Go visits the map.
\<close>

theorem attestations_conserved:
  "filter (\<lambda>e. att_slot e = s) (entries_of evs) =
     concat (map snd (filter (\<lambda>j. fst j = s) (fl_jobs (flushSlots cs stt g (flush_start cs stt g n1 n2) evs)))) @
     (case fl_pending (flushSlots cs stt g (flush_start cs stt g n1 n2) evs) s of Some es \<Rightarrow> es | None \<Rightarrow> [])"
  using flushSlots_view [of cs stt g "flush_start cs stt g n1 n2" evs s]
  by (simp add: flushed_def waiting_def flush_start_def)

lemma flushSlots_append:
  "FlushCtxDone \<notin> set evs \<Longrightarrow> flushSlots cs stt g st (evs @ evs') = flushSlots cs stt g (flushSlots cs stt g st evs) evs'"
  by (induction cs stt g st evs rule: flushSlots.induct) auto

text \<open>
  C10: a tick closes every finished slot and no other.  When the timer fires and the range visits
  every key of the map, afterwards every entry received for a slot up to the one that has just
  ended has been handed to a logging goroutine and nothing of it is pending, while for later
  slots the tick changes nothing.
\<close>

theorem tick_flushes_completed_slots:
  assumes "FlushCtxDone \<notin> set evs"
    and "st = flushSlots cs stt g (flush_start cs stt g n1 n2) evs"
    and "set order = dom (fl_pending st)"
    and "st' = flushSlots cs stt g (flush_start cs stt g n1 n2) (evs @ [FlushTimer now order m1 m2])"
  shows "if s \<le> cs g now - 1
         then fl_pending st' s = None \<and>
              concat (map snd (filter (\<lambda>j. fst j = s) (fl_jobs st'))) = filter (\<lambda>e. att_slot e = s) (entries_of evs)
         else fl_pending st' s = fl_pending st s \<and>
              concat (map snd (filter (\<lambda>j. fst j = s) (fl_jobs st'))) = concat (map snd (filter (\<lambda>j. fst j = s) (fl_jobs st)))"
proof -
  have st': "st' = on_timer cs stt g st now order m1 m2"
    using assms by (simp add: flushSlots_append)
  then have pend: "fl_pending st' s = (if s \<le> cs g now - 1 then None else fl_pending st s)"
    using assms(3) by (auto simp: on_timer_def flush_keys_pending domIff)
  have all: "flushed st' s @ waiting st' s = filter (\<lambda>e. att_slot e = s) (entries_of evs)"
    using flushSlots_view [of cs stt g "flush_start cs stt g n1 n2" evs s]
    by (simp add: st' on_timer_view flush_keys_view flip: assms(2))
  show ?thesis
  proof (cases "s \<le> cs g now - 1")
    case True
    with pend all show ?thesis by (simp add: flushed_def waiting_def)
  next
    case False
    then have "flushed st' s = flushed st s" by (simp add: st' on_timer_view flush_keys_late)
    with pend False show ?thesis by (simp add: flushed_def)
  qed
qed

definition demo_att :: "slot \<Rightarrow> u64 \<Rightarrow> bufferedAttestation" where
  "demo_att s i = \<lparr>receiveTime = 0, subnetID = 1, att_slot = s, attesterIdx = i\<rparr>"

definition demo_clock :: "time \<Rightarrow> time \<Rightarrow> slot" where
  "demo_clock genesis now = of_int ((now - genesis) div (12 * Second))"

theorem tick_flushes_completed_slots_witness:
  "fl_pending (flushSlots demo_clock demo_start 0 (flush_start demo_clock demo_start 0 0 0)
     ([FlushEntry (demo_att 7 1), FlushEntry (demo_att 8 2), FlushEntry (demo_att 7 3)] @
      [FlushTimer (96 * Second) [8, 7] 0 0])) 7 = None \<and>
   concat (map snd (filter (\<lambda>j. fst j = 7) (fl_jobs (flushSlots demo_clock demo_start 0 (flush_start demo_clock demo_start 0 0 0)
     ([FlushEntry (demo_att 7 1), FlushEntry (demo_att 8 2), FlushEntry (demo_att 7 3)] @
      [FlushTimer (96 * Second) [8, 7] 0 0]))))) = [demo_att 7 1, demo_att 7 3]"
proof -
  let ?evs = "[FlushEntry (demo_att 7 1), FlushEntry (demo_att 8 2), FlushEntry (demo_att 7 3)]"
  have le: "(7::slot) \<le> demo_clock 0 (96 * Second) - 1" by (simp add: demo_clock_def Second_def)
  have "FlushCtxDone \<notin> set ?evs" by simp
  moreover have "set [8, 7] = dom (fl_pending (flushSlots demo_clock demo_start 0 (flush_start demo_clock demo_start 0 0 0) ?evs))"
    by (auto simp: flush_start_def on_entry_def demo_att_def)
  ultimately have "if (7::slot) \<le> demo_clock 0 (96 * Second) - 1
         then fl_pending (flushSlots demo_clock demo_start 0 (flush_start demo_clock demo_start 0 0 0)
                (?evs @ [FlushTimer (96 * Second) [8, 7] 0 0])) 7 = None \<and>
              concat (map snd (filter (\<lambda>j. fst j = 7) (fl_jobs (flushSlots demo_clock demo_start 0 (flush_start demo_clock demo_start 0 0 0)
                (?evs @ [FlushTimer (96 * Second) [8, 7] 0 0]))))) = filter (\<lambda>e. att_slot e = 7) (entries_of ?evs)
         else fl_pending (flushSlots demo_clock demo_start 0 (flush_start demo_clock demo_start 0 0 0)
                (?evs @ [FlushTimer (96 * Second) [8, 7] 0 0])) 7 =
              fl_pending (flushSlots demo_clock demo_start 0 (flush_start demo_clock demo_start 0 0 0) ?evs) 7 \<and>
              concat (map snd (filter (\<lambda>j. fst j = 7) (fl_jobs (flushSlots demo_clock demo_start 0 (flush_start demo_clock demo_start 0 0 0)
                (?evs @ [FlushTimer (96 * Second) [8, 7] 0 0]))))) =
              concat (map snd (filter (\<lambda>j. fst j = 7) (fl_jobs (flushSlots demo_clock demo_start 0 (flush_start demo_clock demo_start 0 0 0) ?evs))))"
    by (rule tick_flushes_completed_slots [OF _ refl _ refl])
  moreover have "filter (\<lambda>e. att_slot e = 7) (entries_of ?evs) = [demo_att 7 1, demo_att 7 3]"
    by (simp add: demo_att_def)
  ultimately show ?thesis using le by argo
qed

section \<open>What is logged\<close>

lemma count_entry_fields:
  "AttestationsReceived (count_entry t0 status e m) = label_inc (dec_u64 (subnetID e)) (AttestationsReceived m)"
  "AttestationLatency (count_entry t0 status e m) =
     label_observe (dec_u64 (subnetID e)) (time_sub (receiveTime e) (fst (snd status))) (AttestationLatency m)"
  "LateAttestations (count_entry t0 status e m) =
     (if time_sub (receiveTime e) t0 > 8 * Second then label_inc (dec_u64 (subnetID e)) (LateAttestations m)
      else LateAttestations m)"
  by (cases status; simp add: count_entry_def Let_def)+

lemma write_entry_eq:
  "write_entry s t0 status e ls = ls @
     [\<lparr>ln_subnet = subnetID e, ln_slot = s, ln_timeInSlotMs = Milliseconds (time_sub (receiveTime e) t0),
       ln_arrivalDelayMs = Milliseconds (time_sub (receiveTime e) (fst (snd status))), ln_attester = attesterIdx e,
       ln_block = fst status,
       ln_blockTimeInSlotMs = (if fst status = ''proposed'' then Some (Milliseconds (snd (snd status))) else None)\<rparr>]"
  by (cases status) (simp add: write_entry_def Let_def)

lemma log_entry_fields:
  "AttestationsReceived (fst (log_entry s t0 status e out)) = label_inc (dec_u64 (subnetID e)) (AttestationsReceived (fst out))"
  "AttestationLatency (fst (log_entry s t0 status e out)) =
     label_observe (dec_u64 (subnetID e)) (time_sub (receiveTime e) (fst (snd status))) (AttestationLatency (fst out))"
  "LateAttestations (fst (log_entry s t0 status e out)) =
     (if time_sub (receiveTime e) t0 > 8 * Second then label_inc (dec_u64 (subnetID e)) (LateAttestations (fst out))
      else LateAttestations (fst out))"
  "snd (log_entry s t0 status e out) = snd out @
     [\<lparr>ln_subnet = subnetID e, ln_slot = s, ln_timeInSlotMs = Milliseconds (time_sub (receiveTime e) t0),
       ln_arrivalDelayMs = Milliseconds (time_sub (receiveTime e) (fst (snd status))), ln_attester = attesterIdx e,
       ln_block = fst status,
       ln_blockTimeInSlotMs = (if fst status = ''proposed'' then Some (Milliseconds (snd (snd status))) else None)\<rparr>]"
  by (simp_all add: log_entry_def count_entry_fields write_entry_eq)

lemma fold_log_received:
  "AttestationsReceived (fst (fold (log_entry s t0 status) es out)) (dec_u64 k) =
     AttestationsReceived (fst out) (dec_u64 k) + length (filter (\<lambda>e. subnetID e = k) es)"
  by (induction es arbitrary: out) (auto simp: log_entry_fields label_inc_def)

lemma fold_log_latency:
  "AttestationLatency (fst (fold (log_entry s t0 status) es out)) (dec_u64 k) =
     AttestationLatency (fst out) (dec_u64 k) @
     map (\<lambda>e. time_sub (receiveTime e) (fst (snd status))) (filter (\<lambda>e. subnetID e = k) es)"
  by (induction es arbitrary: out) (auto simp: log_entry_fields label_observe_def)

lemma fold_log_late:
  "LateAttestations (fst (fold (log_entry s t0 status) es out)) (dec_u64 k) =
     LateAttestations (fst out) (dec_u64 k) +
     length (filter (\<lambda>e. subnetID e = k \<and> time_sub (receiveTime e) t0 > 8 * Second) es)"
  by (induction es arbitrary: out) (auto simp: log_entry_fields label_inc_def)

lemma fold_log_lines:
  "snd (fold (log_entry s t0 status) es out) = snd out @
     map (\<lambda>e. \<lparr>ln_subnet = subnetID e, ln_slot = s, ln_timeInSlotMs = Milliseconds (time_sub (receiveTime e) t0),
       ln_arrivalDelayMs = Milliseconds (time_sub (receiveTime e) (fst (snd status))), ln_attester = attesterIdx e,
       ln_block = fst status,
       ln_blockTimeInSlotMs = (if fst status = ''proposed'' then Some (Milliseconds (snd (snd status))) else None)\<rparr>) es"
  by (induction es arbitrary: out) (auto simp: log_entry_fields)

lemma time_sub_late: "time_sub t u > 8 * Second \<longleftrightarrow> t - u > 8 * Second"
  by (auto simp: time_sub_def Second_def)

text \<open>
  C18: the metrics of a slot count its attestations, per subnet.  Logging a slot adds to the counter
  of every subnet exactly the number of buffered attestations of that subnet, and to its late
  counter exactly those received more than 8 seconds into the slot; and it writes one line per
  attestation, in order, with the attestation's subnet and attester and the slot.
\<close>

theorem slot_counts_per_subnet:
  assumes "start_time genesis s = Some slotStart"
    and "(m', ls') = logSlotAttestations start_time s es genesis tracker (m, ls)"
  shows "AttestationsReceived m' (dec_u64 k) = AttestationsReceived m (dec_u64 k) + length (filter (\<lambda>e. subnetID e = k) es) \<and>
     LateAttestations m' (dec_u64 k) = LateAttestations m (dec_u64 k) +
       length (filter (\<lambda>e. subnetID e = k \<and> receiveTime e - slotStart > 8 * Second) es) \<and>
     (\<exists>new. ls' = ls @ new \<and>
       map (\<lambda>l. (ln_subnet l, ln_slot l, ln_attester l)) new = map (\<lambda>e. (subnetID e, s, attesterIdx e)) es)"
proof -
  have "m' = fst (fold (log_entry s slotStart (block_status tracker s slotStart)) es (m, ls))"
    and "ls' = snd (fold (log_entry s slotStart (block_status tracker s slotStart)) es (m, ls))"
    using assms by (metis (no_types) fst_conv snd_conv logSlotAttestations_def option.simps(5))+
  then show ?thesis
    by (simp add: fold_log_received fold_log_late fold_log_lines time_sub_late)
qed

definition zero_att_metrics :: att_metrics where
  "zero_att_metrics = \<lparr>AttestationsReceived = (\<lambda>_. 0), AttestationLatency = (\<lambda>_. []),
     AttestationLatencyFromFourSeconds = (\<lambda>_. []), AttestationArrivalInSlot = (\<lambda>_. []), LateAttestations = (\<lambda>_. 0)\<rparr>"

definition demo_entries :: "bufferedAttestation list" where
  "demo_entries =
     [\<lparr>receiveTime = 29 * Second, subnetID = 1, att_slot = 2, attesterIdx = 10\<rparr>,
      \<lparr>receiveTime = 33 * Second, subnetID = 1, att_slot = 2, attesterIdx = 11\<rparr>,
      \<lparr>receiveTime = 30 * Second, subnetID = 6, att_slot = 2, attesterIdx = 12\<rparr>]"

theorem slot_counts_per_subnet_witness:
  "AttestationsReceived (fst (logSlotAttestations demo_start 2 demo_entries 0 None (zero_att_metrics, []))) (dec_u64 1) = 2 \<and>
   LateAttestations (fst (logSlotAttestations demo_start 2 demo_entries 0 None (zero_att_metrics, []))) (dec_u64 1) = 1"
proof -
  have "demo_start 0 2 = Some (24 * Second)" by (simp add: demo_start_def)
  from slot_counts_per_subnet [where start_time = demo_start and genesis = 0 and s = 2, OF this prod.collapse, of demo_entries None zero_att_metrics "[]" 1]
  show ?thesis by (simp add: demo_entries_def zero_att_metrics_def Second_def)
qed

text \<open>
  C38: what the arrival delay is measured from.  The delay observed in the latency histogram and
  written to the log is measured from the recorded arrival of the slot's block, and only when no
  block is recorded from four seconds into the slot; the log line says which.
\<close>

theorem arrival_delay_reference:
  assumes "start_time genesis s = Some slotStart"
    and "(m', ls') = logSlotAttestations start_time s es genesis (Some bt) (m, ls)"
  shows "(case GetBlockArrival bt s of
       Some t \<Rightarrow>
         AttestationLatency m' (dec_u64 k) = AttestationLatency m (dec_u64 k) @
           map (\<lambda>e. time_sub (receiveTime e) t) (filter (\<lambda>e. subnetID e = k) es) \<and>
         map (\<lambda>l. (ln_block l, ln_arrivalDelayMs l, ln_blockTimeInSlotMs l)) (drop (length ls) ls') =
           map (\<lambda>e. (''proposed'', Milliseconds (time_sub (receiveTime e) t), Some (Milliseconds (time_sub t slotStart)))) es
     | None \<Rightarrow>
         AttestationLatency m' (dec_u64 k) = AttestationLatency m (dec_u64 k) @
           map (\<lambda>e. time_sub (receiveTime e) (slotStart + 4 * Second)) (filter (\<lambda>e. subnetID e = k) es) \<and>
         map (\<lambda>l. (ln_block l, ln_arrivalDelayMs l, ln_blockTimeInSlotMs l)) (drop (length ls) ls') =
           map (\<lambda>e. (''missed'', Milliseconds (time_sub (receiveTime e) (slotStart + 4 * Second)), None)) es)"
proof -
  have "m' = fst (fold (log_entry s slotStart (block_status (Some bt) s slotStart)) es (m, ls))"
    and "ls' = snd (fold (log_entry s slotStart (block_status (Some bt) s slotStart)) es (m, ls))"
    using assms by (metis (no_types) fst_conv snd_conv logSlotAttestations_def option.simps(5))+
  then show ?thesis
    by (cases "GetBlockArrival bt s") (simp_all add: fold_log_latency fold_log_lines block_status_def time_add_def)
qed

theorem arrival_delay_reference_witness:
  "AttestationLatency (fst (logSlotAttestations demo_start 2 demo_entries 0
     (Some (Record NewBlockTracker 2 (26 * Second))) (zero_att_metrics, []))) (dec_u64 6) = [4 * Second]"
proof -
  have "demo_start 0 2 = Some (24 * Second)" by (simp add: demo_start_def)
  from arrival_delay_reference [where start_time = demo_start and genesis = 0 and s = 2, OF this prod.collapse, of demo_entries "Record NewBlockTracker 2 (26 * Second)"
      zero_att_metrics "[]" 6]
  show ?thesis by (simp add: demo_entries_def zero_att_metrics_def Second_def time_sub_def)
qed

end
