(* ===== verification/Attestation_Pipeline.thy ===== *)
theory Attestation_Pipeline
  imports Attestation
begin

text \<open>
  \<^verbatim>\<open>ListenForAttestations\<close> of \<^verbatim>\<open>node/attestation.go\<close>: one goroutine per subnet runs \<^verbatim>\<open>collectSubnet\<close>, all send on
  one channel of capacity 4096, and one goroutine runs \<^verbatim>\<open>flushSlots\<close>.  The relation \<open>pipe_step\<close> has one rule
  per atomic step of any of them; a collector that finds the channel full keeps its entry and
  cannot read on.
\<close>

section \<open>State\<close>

text \<open>A collector: its subnet, the messages it has read, an entry it is about to send, and whether it still runs.\<close>

record collector_state =
  c_subnet :: u64
  c_log :: "att_in list"
  c_hold :: "bufferedAttestation option"
  c_running :: bool

record pipe_state =
  pi_cols :: "collector_state list"
  pi_chan :: "bufferedAttestation list"
  pi_flush :: flush_state

definition chan_capacity :: nat where
  "chan_capacity = 4096"

definition ListenForAttestations ::
  "(time \<Rightarrow> time \<Rightarrow> slot) \<Rightarrow> (time \<Rightarrow> slot \<Rightarrow> time option) \<Rightarrow> time \<Rightarrow> u64 list \<Rightarrow> time \<Rightarrow> time \<Rightarrow> pipe_state" where
  "ListenForAttestations cs stt genesis subnets now1 now2 =
     \<lparr>pi_cols = map (\<lambda>sid. \<lparr>c_subnet = sid, c_log = [], c_hold = None, c_running = True\<rparr>) subnets,
      pi_chan = [], pi_flush = flush_start cs stt genesis now1 now2\<rparr>"

section \<open>Steps\<close>

inductive pipe_step ::
  "(bytes \<Rightarrow> (slot \<times> u64) option) \<Rightarrow> (time \<Rightarrow> time \<Rightarrow> slot) \<Rightarrow> (time \<Rightarrow> slot \<Rightarrow> time option) \<Rightarrow> time \<Rightarrow> pipe_state \<Rightarrow> pipe_state \<Rightarrow> bool"
  for decode cs stt genesis where
  sub_error: "pi_cols st = pre @ c # post \<Longrightarrow> c_running c \<Longrightarrow> c_hold c = None \<Longrightarrow>
     pipe_step decode cs stt genesis st
       (st\<lparr>pi_cols := pre @ c\<lparr>c_log := c_log c @ [AttSubErr], c_running := False\<rparr> # post\<rparr>)"
| bad_message: "pi_cols st = pre @ c # post \<Longrightarrow> c_running c \<Longrightarrow> c_hold c = None \<Longrightarrow> decode data = None \<Longrightarrow>
     pipe_step decode cs stt genesis st (st\<lparr>pi_cols := pre @ c\<lparr>c_log := c_log c @ [AttMsg data now]\<rparr> # post\<rparr>)"
| message: "pi_cols st = pre @ c # post \<Longrightarrow> c_running c \<Longrightarrow> c_hold c = None \<Longrightarrow> decode data = Some (s, idx) \<Longrightarrow>
     pipe_step decode cs stt genesis st
       (st\<lparr>pi_cols := pre @ c\<lparr>c_log := c_log c @ [AttMsg data now],
             c_hold := Some \<lparr>receiveTime = now, subnetID = c_subnet c, att_slot = s, attesterIdx = idx\<rparr>\<rparr> # post\<rparr>)"
| send: "pi_cols st = pre @ c # post \<Longrightarrow> c_hold c = Some e \<Longrightarrow> length (pi_chan st) < chan_capacity \<Longrightarrow>
     pipe_step decode cs stt genesis st
       (st\<lparr>pi_cols := pre @ c\<lparr>c_hold := None\<rparr> # post, pi_chan := pi_chan st @ [e]\<rparr>)"
| receive: "pi_chan st = e # rest \<Longrightarrow>
     pipe_step decode cs stt genesis st (st\<lparr>pi_chan := rest, pi_flush := on_entry (pi_flush st) e\<rparr>)"
| tick: "set order = dom (fl_pending (pi_flush st)) \<Longrightarrow>
     pipe_step decode cs stt genesis st
       (st\<lparr>pi_flush := on_timer cs stt genesis (pi_flush st) now order now1 now2\<rparr>)"

inductive pipe_reach ::
  "(bytes \<Rightarrow> (slot \<times> u64) option) \<Rightarrow> (time \<Rightarrow> time \<Rightarrow> slot) \<Rightarrow> (time \<Rightarrow> slot \<Rightarrow> time option) \<Rightarrow> time \<Rightarrow> pipe_state \<Rightarrow> pipe_state \<Rightarrow> bool"
  for decode cs stt genesis st0 where
  start: "pipe_reach decode cs stt genesis st0 st0"
| step: "pipe_reach decode cs stt genesis st0 st \<Longrightarrow> pipe_step decode cs stt genesis st st' \<Longrightarrow>
     pipe_reach decode cs stt genesis st0 st'"

section \<open>Invariant\<close>

definition at_slot :: "slot \<Rightarrow> bufferedAttestation list \<Rightarrow> bufferedAttestation multiset" where
  "at_slot s es = mset (filter (\<lambda>e. att_slot e = s) es)"

lemma at_slot_simps [simp]:
  "at_slot s [] = {#}" "at_slot s (xs @ ys) = at_slot s xs + at_slot s ys"
  "at_slot s (e # es) = (if att_slot e = s then {#e#} else {#}) + at_slot s es"
  by (simp_all add: at_slot_def)

definition held :: "collector_state \<Rightarrow> bufferedAttestation list" where
  "held c = (case c_hold c of None \<Rightarrow> [] | Some e \<Rightarrow> [e])"

definition collected :: "(bytes \<Rightarrow> (slot \<times> u64) option) \<Rightarrow> collector_state list \<Rightarrow> bufferedAttestation list" where
  "collected decode cols = concat (map (\<lambda>c. collectSubnet decode (c_subnet c) (c_log c)) cols)"

definition pipe_inv :: "(bytes \<Rightarrow> (slot \<times> u64) option) \<Rightarrow> pipe_state \<Rightarrow> bool" where
  "pipe_inv decode st \<longleftrightarrow>
     (\<forall>s. at_slot s (collected decode (pi_cols st)) =
        mset (flushed (pi_flush st) s @ waiting (pi_flush st) s) + at_slot s (pi_chan st) +
        at_slot s (concat (map held (pi_cols st)))) \<and>
     length (pi_chan st) \<le> chan_capacity \<and>
     (\<forall>c \<in> set (pi_cols st). c_running c \<longrightarrow> AttSubErr \<notin> set (c_log c))"

lemma collectSubnet_append:
  "AttSubErr \<notin> set msgs \<Longrightarrow> collectSubnet decode sid (msgs @ ms) = collectSubnet decode sid msgs @ collectSubnet decode sid ms"
  by (induction decode sid msgs rule: collectSubnet.induct) (auto split: option.splits)

lemma collected_split:
  "collected decode (pre @ c # post) = collected decode pre @ collectSubnet decode (c_subnet c) (c_log c) @ collected decode post"
  by (simp add: collected_def)

lemma pipe_inv_D:
  assumes "pipe_inv decode st"
  shows "at_slot s (collected decode (pi_cols st)) =
      mset (flushed (pi_flush st) s @ waiting (pi_flush st) s) + at_slot s (pi_chan st) + at_slot s (concat (map held (pi_cols st)))"
    and "length (pi_chan st) \<le> chan_capacity"
    and "c \<in> set (pi_cols st) \<Longrightarrow> c_running c \<Longrightarrow> AttSubErr \<notin> set (c_log c)"
  using assms by (auto simp: pipe_inv_def)

lemma pipe_step_inv:
  assumes "pipe_step decode cs stt g st st'" and inv: "pipe_inv decode st"
  shows "pipe_inv decode st'"
  using assms(1)
proof cases
  case (sub_error pre c post)
  have "AttSubErr \<notin> set (c_log c)" using pipe_inv_D(3) [OF inv, of c] sub_error by simp
  with sub_error inv show ?thesis
    by (auto simp: pipe_inv_def collected_split collectSubnet_append held_def)
next
  case (bad_message pre c post data now)
  have "AttSubErr \<notin> set (c_log c)" using pipe_inv_D(3) [OF inv, of c] bad_message by simp
  with bad_message inv show ?thesis
    by (auto simp: pipe_inv_def collected_split collectSubnet_append held_def)
next
  case (message pre c post data s idx now)
  have "AttSubErr \<notin> set (c_log c)" using pipe_inv_D(3) [OF inv, of c] message by simp
  with message inv show ?thesis
    by (auto simp: pipe_inv_def collected_split collectSubnet_append held_def)
next
  case (send pre c post e)
  with inv show ?thesis
    by (auto simp: pipe_inv_def collected_split held_def)
next
  case (receive e rest)
  with inv show ?thesis
    by (auto simp: pipe_inv_def on_entry_view)
next
  case (tick order now now1 now2)
  with inv show ?thesis
    by (simp add: pipe_inv_def on_timer_view flush_keys_view)
qed

lemma pipe_start_inv: "pipe_inv decode (ListenForAttestations cs stt g subnets n1 n2)"
proof -
  have "collected decode (map (\<lambda>sid. \<lparr>c_subnet = sid, c_log = [], c_hold = None, c_running = True\<rparr>) subnets) = []"
    by (induction subnets) (simp_all add: collected_def)
  moreover have "at_slot s (concat (map (held \<circ> (\<lambda>sid. \<lparr>c_subnet = sid, c_log = [], c_hold = None, c_running = True\<rparr>)) subnets)) = {#}" for s
    by (induction subnets) (simp_all add: held_def)
  ultimately show ?thesis
    by (auto simp: pipe_inv_def ListenForAttestations_def)
qed

lemma pipe_reach_inv: "pipe_reach decode cs stt g st0 st \<Longrightarrow> pipe_inv decode st0 \<Longrightarrow> pipe_inv decode st"
  by (induction rule: pipe_reach.induct) (auto intro: pipe_step_inv)

section \<open>Property\<close>

text \<open>
  The whole pipeline conserves attestations.  In every reachable state, for every slot, the
  attestations all collectors have decoded are exactly (as a multiset) those handed to the logging
  goroutines, those pending in the flusher, those in the channel and those a collector is about to
  send; and the channel never holds more than its capacity.
\<close>

lemma pipeline_conserves_attestations:
  assumes "pipe_reach decode cs stt g (ListenForAttestations cs stt g subnets n1 n2) st"
  shows "mset (filter (\<lambda>e. att_slot e = s) (concat (map (\<lambda>c. collectSubnet decode (c_subnet c) (c_log c)) (pi_cols st)))) =
       mset (concat (map snd (filter (\<lambda>j. fst j = s) (fl_jobs (pi_flush st))))) +
       mset (case fl_pending (pi_flush st) s of Some es \<Rightarrow> es | None \<Rightarrow> []) +
       mset (filter (\<lambda>e. att_slot e = s) (pi_chan st)) +
       mset (filter (\<lambda>e. att_slot e = s) (concat (map (\<lambda>c. case c_hold c of None \<Rightarrow> [] | Some e \<Rightarrow> [e]) (pi_cols st)))) \<and>
     length (pi_chan st) \<le> 4096"
proof -
  have "held = (\<lambda>c. case c_hold c of None \<Rightarrow> [] | Some e \<Rightarrow> [e])" by (simp add: held_def fun_eq_iff)
  with pipe_reach_inv [OF assms pipe_start_inv] show ?thesis
    by (simp add: pipe_inv_def at_slot_def collected_def flushed_def waiting_def chan_capacity_def)
qed

definition demo_att_decode :: "bytes \<Rightarrow> (slot \<times> u64) option" where
  "demo_att_decode data = (case data of [b, c] \<Rightarrow> Some (ucast b, ucast c) | _ \<Rightarrow> None)"

definition demo_pipe :: pipe_state where
  "demo_pipe = (ListenForAttestations demo_clock demo_start 0 [6] 0 0)
     \<lparr>pi_cols := [\<lparr>c_subnet = 6, c_log = [AttMsg [2, 9] 30], c_hold = None, c_running = True\<rparr>],
      pi_chan := [\<lparr>receiveTime = 30, subnetID = 6, att_slot = 2, attesterIdx = 9\<rparr>]\<rparr>"

lemma demo_pipe_reach:
  "pipe_reach demo_att_decode demo_clock demo_start 0 (ListenForAttestations demo_clock demo_start 0 [6] 0 0) demo_pipe"
proof -
  let ?st0 = "ListenForAttestations demo_clock demo_start 0 [6] 0 0"
  let ?e = "\<lparr>receiveTime = 30, subnetID = 6, att_slot = 2, attesterIdx = 9\<rparr>"
  let ?c = "\<lparr>c_subnet = 6, c_log = [], c_hold = None, c_running = True\<rparr>"
  let ?st1 = "?st0\<lparr>pi_cols := [] @ ?c\<lparr>c_log := c_log ?c @ [AttMsg [2, 9] 30],
      c_hold := Some \<lparr>receiveTime = 30, subnetID = c_subnet ?c, att_slot = 2, attesterIdx = 9\<rparr>\<rparr> # []\<rparr>"
  have 1: "pipe_step demo_att_decode demo_clock demo_start 0 ?st0 ?st1"
    by (rule pipe_step.message) (simp_all add: ListenForAttestations_def demo_att_decode_def)
  let ?c1 = "\<lparr>c_subnet = 6, c_log = [AttMsg [2, 9] 30], c_hold = Some ?e, c_running = True\<rparr>"
  have "pipe_step demo_att_decode demo_clock demo_start 0 ?st1
      (?st1\<lparr>pi_cols := [] @ ?c1\<lparr>c_hold := None\<rparr> # [], pi_chan := pi_chan ?st1 @ [?e]\<rparr>)"
    by (rule pipe_step.send) (simp_all add: ListenForAttestations_def chan_capacity_def)
  then have 2: "pipe_step demo_att_decode demo_clock demo_start 0 ?st1 demo_pipe"
    by (simp add: demo_pipe_def ListenForAttestations_def)
  show ?thesis by (rule pipe_reach.step [OF pipe_reach.step [OF pipe_reach.start 1] 2])
qed

lemma pipeline_conserves_attestations_example:
  "mset (filter (\<lambda>e. att_slot e = 2) (concat (map (\<lambda>c. collectSubnet demo_att_decode (c_subnet c) (c_log c)) (pi_cols demo_pipe)))) =
     {#\<lparr>receiveTime = 30, subnetID = 6, att_slot = 2, attesterIdx = 9\<rparr>#}"
  using pipeline_conserves_attestations [OF demo_pipe_reach, of 2]
  by (simp add: demo_pipe_def ListenForAttestations_def flush_start_def)

end
