(* ===== verification/Slot_Clock.thy ===== *)
theory Slot_Clock
  imports Attestation
begin

text \<open>
  The timer of \<^verbatim>\<open>flushSlots\<close> against the clock.  \<^verbatim>\<open>slots.CurrentSlot\<close> and \<^verbatim>\<open>slots.StartTime\<close> are Prysm's, so what
  the code relies on is the predicate \<open>slot_clock\<close>; a Go timer does not fire before its duration has
  passed and the clock does not go back, which is the predicate \<open>well_timed\<close> on the events of a run.
\<close>

section \<open>What is assumed of the clock\<close>

text \<open>
  Between genesis and a horizon: slot \<open>k\<close> (after the first) is reached exactly when its start time is,
  and the current slot and the one after it have start times, the latter less than a Duration away.
\<close>

definition slot_clock :: "(time \<Rightarrow> time \<Rightarrow> slot) \<Rightarrow> (time \<Rightarrow> slot \<Rightarrow> time option) \<Rightarrow> time \<Rightarrow> time \<Rightarrow> bool" where
  "slot_clock cs stt g horizon \<longleftrightarrow>
     (\<forall>t k u. g \<le> t \<and> t \<le> horizon \<and> k \<noteq> 0 \<and> stt g k = Some u \<longrightarrow> (k \<le> cs g t \<longleftrightarrow> u \<le> t)) \<and>
     (\<forall>t. g \<le> t \<and> t \<le> horizon \<longrightarrow> cs g t \<noteq> - 1 \<and> stt g (cs g t) \<noteq> None \<and> (\<exists>u. stt g (cs g t + 1) = Some u \<and> u - t < 2 ^ 63))"

text \<open>
  The events of a run with a timer that fires at \<open>fire\<close> or later (and not before it is set), and readings of the clock that do
  not go back and stay within the horizon.
\<close>

fun well_timed ::
  "(time \<Rightarrow> time \<Rightarrow> slot) \<Rightarrow> (time \<Rightarrow> slot \<Rightarrow> time option) \<Rightarrow> time \<Rightarrow> time \<Rightarrow> time \<Rightarrow> flush_in list \<Rightarrow> bool" where
  "well_timed cs stt g horizon fire [] = True"
| "well_timed cs stt g horizon fire (FlushCtxDone # evs) = True"
| "well_timed cs stt g horizon fire (FlushEntry e # evs) = well_timed cs stt g horizon fire evs"
| "well_timed cs stt g horizon fire (FlushTimer now order now1 now2 # evs) =
     (fire \<le> now \<and> now \<le> now1 \<and> now1 \<le> now2 \<and> now2 \<le> horizon \<and>
      well_timed cs stt g horizon (max now2 (now2 + nextSlotTimer cs stt g now1 now2)) evs)"

text \<open>The clock readings of the ticks, and the slots the ticks close.\<close>

fun ticks :: "flush_in list \<Rightarrow> time list" where
  "ticks [] = []"
| "ticks (FlushCtxDone # evs) = []"
| "ticks (FlushEntry e # evs) = ticks evs"
| "ticks (FlushTimer now order now1 now2 # evs) = now # ticks evs"

lemma unat_Suc: "(x::slot) \<noteq> - 1 \<Longrightarrow> unat (x + 1) = Suc (unat x)"
  by (metis add.commute unatSuc add_eq_0_iff2 minus_equation_iff)

text \<open>A timer set while slot \<open>k\<close> is current fires when a later slot is.\<close>

lemma timer_next_slot:
  assumes clock: "slot_clock cs stt g horizon"
    and times: "g \<le> now1" "now1 \<le> now2" "max now2 (now2 + nextSlotTimer cs stt g now1 now2) \<le> now" "now \<le> horizon"
  shows "unat (cs g now1) < unat (cs g now)"
proof -
  have reading: "g \<le> now1 \<and> now1 \<le> horizon" "g \<le> now \<and> now \<le> horizon" using times by auto
  from clock reading(1) obtain u where last: "cs g now1 \<noteq> - 1"
    and u: "stt g (cs g now1 + 1) = Some u" "u - now1 < 2 ^ 63"
    unfolding slot_clock_def by blast
  have s: "unat (cs g now1 + 1) = Suc (unat (cs g now1))" using last by (rule unat_Suc)
  have "u - now2 < 2 ^ 63" using u(2) times(2) by linarith
  then have "u \<le> now2 + time_sub u now2" by (auto simp: time_sub_def)
  with times(3) u(1) have "u \<le> now" by (simp add: nextSlotTimer_def)
  moreover have "cs g now1 + 1 \<noteq> 0" using s by (metis nat.distinct(1) unat_0)
  ultimately have "cs g now1 + 1 \<le> cs g now" using clock reading(2) u(1) unfolding slot_clock_def by blast
  with s show ?thesis by (simp add: word_le_nat_alt)
qed

lemma slot_clock_mono:
  assumes clock: "slot_clock cs stt g horizon" and "g \<le> t" "t \<le> t'" "t' \<le> horizon"
  shows "unat (cs g t) \<le> unat (cs g t')"
proof (cases "cs g t = 0")
  case False
  have t: "g \<le> t \<and> t \<le> horizon" "g \<le> t' \<and> t' \<le> horizon" using assms by auto
  from clock t(1) obtain u where u: "stt g (cs g t) = Some u" unfolding slot_clock_def by blast
  with clock t(1) False have "u \<le> t" unfolding slot_clock_def by blast
  with assms(3) have "u \<le> t'" by simp
  with clock t(2) u False have "cs g t \<le> cs g t'" unfolding slot_clock_def by blast
  then show ?thesis by (simp add: word_le_nat_alt)
qed simp

lemma ticks_advance:
  assumes clock: "slot_clock cs stt g horizon" and "g \<le> n1" "n1 \<le> n2"
    and "well_timed cs stt g horizon (max n2 (n2 + nextSlotTimer cs stt g n1 n2)) evs"
  shows "sorted_wrt (<) (map (unat \<circ> cs g) (ticks evs)) \<and>
     (\<forall>now \<in> set (ticks evs). n2 \<le> now \<and> now \<le> horizon \<and> unat (cs g n1) < unat (cs g now))"
  using assms(2-)
proof (induction evs arbitrary: n1 n2)
  case (Cons ev evs)
  show ?case
  proof (cases ev)
    case (FlushTimer now order now1 now2)
    with Cons.prems have ts: "max n2 (n2 + nextSlotTimer cs stt g n1 n2) \<le> now" "now \<le> now1" "now1 \<le> now2" "now2 \<le> horizon"
      and wt: "well_timed cs stt g horizon (max now2 (now2 + nextSlotTimer cs stt g now1 now2)) evs" by simp_all
    have now: "g \<le> now" "n2 \<le> now" "now \<le> horizon" "g \<le> now1" "now1 \<le> horizon" using ts Cons.prems by auto
    have lt: "unat (cs g n1) < unat (cs g now)"
      by (rule timer_next_slot [OF clock Cons.prems(1,2) ts(1) now(3)])
    have le: "unat (cs g now) \<le> unat (cs g now1)" by (rule slot_clock_mono [OF clock now(1) ts(2) now(5)])
    note IH = Cons.IH [OF now(4) ts(3) wt]
    have later: "n2 \<le> t \<and> t \<le> horizon \<and> unat (cs g now) < unat (cs g t)" if "t \<in> set (ticks evs)" for t
      using bspec [OF conjunct2 [OF IH] that] le ts now by linarith
    moreover have "unat (cs g n1) < unat (cs g t)" if "t \<in> set (ticks evs)" for t
      using later [OF that] lt by linarith
    ultimately show ?thesis using IH lt now FlushTimer by simp
  next
    case (FlushEntry e)
    with Cons.prems have "well_timed cs stt g horizon (max n2 (n2 + nextSlotTimer cs stt g n1 n2)) evs" by simp
    from Cons.IH [OF Cons.prems(1,2) this] FlushEntry show ?thesis by simp
  qed simp
qed simp

section \<open>What the flusher starts\<close>

lemma flush_keys_jobs:
  "j \<in> set (fl_jobs (flush_keys c order st)) \<Longrightarrow> j \<in> set (fl_jobs st) \<or> fst j \<le> c"
proof (induction order arbitrary: st)
  case (Cons k order)
  let ?st = "case fl_pending st k of None \<Rightarrow> st | Some entries \<Rightarrow>
      if k \<le> c then st\<lparr>fl_jobs := fl_jobs st @ [(k, entries)], fl_pending := (fl_pending st)(k := None)\<rparr> else st"
  from Cons.prems have "j \<in> set (fl_jobs ?st) \<or> fst j \<le> c" by (intro Cons.IH) simp
  then show ?case by (auto split: option.splits if_splits)
qed simp

lemma flushSlots_jobs:
  "j \<in> set (fl_jobs (flushSlots cs stt g st evs)) \<Longrightarrow>
     j \<in> set (fl_jobs st) \<or> (\<exists>now \<in> set (ticks evs). fst j \<le> cs g now - 1)"
proof (induction cs stt g st evs rule: flushSlots.induct)
  case (4 cs stt g st now order now1 now2 evs)
  then have "j \<in> set (fl_jobs (on_timer cs stt g st now order now1 now2)) \<or> (\<exists>now \<in> set (ticks evs). fst j \<le> cs g now - 1)"
    by simp
  then show ?case using flush_keys_jobs by (fastforce simp: on_timer_def Let_def)
qed (auto simp: on_entry_def Let_def)

section \<open>Properties\<close>

text \<open>
  C11: a slot is logged only when it is over, and the timer never lags.  With a clock and a timer that
  behave as documented, the ticks of any run read strictly later slots each time, starting after the
  slot in which the flusher began, so that \<^verbatim>\<open>CurrentSlot - 1\<close> does not wrap around; and every logging
  goroutine is started at a tick at which its slot has ended.
\<close>

theorem logged_slots_are_over:
  assumes "slot_clock cs stt g horizon" and "g \<le> n1" and "n1 \<le> n2"
    and "well_timed cs stt g horizon (max n2 (n2 + nextSlotTimer cs stt g n1 n2)) evs"
    and "st = flushSlots cs stt g (flush_start cs stt g n1 n2) evs"
  shows "sorted_wrt (<) (map (unat \<circ> cs g) (ticks evs)) \<and>
     (\<forall>now \<in> set (ticks evs). unat (cs g n1) < unat (cs g now) \<and> unat (cs g now - 1) = unat (cs g now) - 1) \<and>
     (\<forall>(s, es) \<in> set (fl_jobs st). \<exists>now \<in> set (ticks evs). s < cs g now \<and> (\<forall>u. stt g (s + 1) = Some u \<longrightarrow> u \<le> now))"
proof -
  note adv = ticks_advance [OF assms(1-4)]
  have dec: "unat (cs g now - 1) = unat (cs g now) - 1" "cs g now \<noteq> 0" if "now \<in> set (ticks evs)" for now
  proof -
    from adv that have "unat (cs g now) \<noteq> 0" by fastforce
    then show "cs g now \<noteq> 0" by auto
    then show "unat (cs g now - 1) = unat (cs g now) - 1" by (rule unat_minus_one)
  qed
  have "\<exists>now \<in> set (ticks evs). s < cs g now \<and> (\<forall>u. stt g (s + 1) = Some u \<longrightarrow> u \<le> now)"
    if "(s, es) \<in> set (fl_jobs st)" for s es
  proof -
    from flushSlots_jobs [of "(s, es)" cs stt g "flush_start cs stt g n1 n2" evs] that assms(5)
    obtain now where now: "now \<in> set (ticks evs)" "s \<le> cs g now - 1" by (auto simp: flush_start_def)
    from now(2) dec [OF now(1)] have lt: "unat s < unat (cs g now)"
      by (simp add: word_le_nat_alt) (metis Suc_pred le_imp_less_Suc not_gr_zero unat_eq_zero)
    then have "s \<noteq> - 1" by (metis word_less_nat_alt word_order.extremum_strict)
    then have "unat (s + 1) = Suc (unat s)" by (rule unat_Suc)
    with lt have "s + 1 \<le> cs g now" "s + 1 \<noteq> 0" by (auto simp: word_le_nat_alt)
    with assms(1) adv now(1) assms(2,3) have "\<forall>u. stt g (s + 1) = Some u \<longrightarrow> u \<le> now"
      unfolding slot_clock_def by (meson order_trans)
    with lt now(1) show ?thesis by (auto simp: word_less_nat_alt)
  qed
  with adv dec show ?thesis by auto
qed

lemma demo_slot_clock: "slot_clock demo_clock demo_start 0 (1000 * Second)"
proof -
  have cs: "unat (demo_clock 0 t) = nat (t div (12 * Second))" if "0 \<le> t \<and> t \<le> 1000 * Second" for t
  proof -
    have "t div (12 * Second) \<le> 1000 * Second div (12 * Second)" using that by (intro zdiv_mono1) (auto simp: Second_def)
    then have "t div (12 * Second) \<le> 83" by (simp add: Second_def)
    moreover have "0 \<le> t div (12 * Second)" using that by (simp add: Second_def div_int_pos_iff)
    ultimately show ?thesis by (simp add: demo_clock_def unat_eq_nat_uint take_bit_int_eq_self uint_word_of_int_eq)
  qed
  have "k \<le> demo_clock 0 t \<longleftrightarrow> u \<le> t" if "0 \<le> t \<and> t \<le> 1000 * Second" and "demo_start 0 k = Some u" for t k u
  proof -
    have "k \<le> demo_clock 0 t \<longleftrightarrow> int (unat k) \<le> t div (12 * Second)"
      using cs [OF that(1)] that(1) by (simp add: word_le_nat_alt nat_le_eq_zle le_nat_iff Second_def div_int_pos_iff)
    also have "\<dots> \<longleftrightarrow> 12 * Second * int (unat k) \<le> t" by (auto simp: Second_def)
    finally show ?thesis using that(2) by (simp add: demo_start_def)
  qed
  moreover have "demo_clock 0 t \<noteq> - 1 \<and> demo_start 0 (demo_clock 0 t) \<noteq> None \<and>
      (\<exists>u. demo_start 0 (demo_clock 0 t + 1) = Some u \<and> u - t < 2 ^ 63)" if t: "0 \<le> t \<and> t \<le> 1000 * Second" for t
  proof -
    have "t div (12 * Second) \<le> 1000 * Second div (12 * Second)" using t by (intro zdiv_mono1) (auto simp: Second_def)
    then have "nat (t div (12 * Second)) \<le> 83" by (simp add: Second_def)
    with cs [OF t] have b: "unat (demo_clock 0 t) \<le> 83" by simp
    then have "demo_clock 0 t \<noteq> - 1" by (auto simp: unsigned_minus_1_eq_mask mask_eq_exp_minus_1)
    moreover from this b have "unat (demo_clock 0 t + 1) \<le> 84" by (simp add: unat_Suc)
    then have "int (unat (demo_clock 0 t + 1)) \<le> 84" by linarith
    moreover have "12 * Second * x - t < 2 ^ 63" if "x \<le> 84" for x using that t by (simp add: Second_def)
    ultimately show ?thesis by (simp add: demo_start_def)
  qed
  ultimately show ?thesis unfolding slot_clock_def by blast
qed

text \<open>Begun in slot 2, the first tick comes at the start of slot 3; entries of slots 2 and 3 are waiting.\<close>

definition demo_ticks :: "flush_in list" where
  "demo_ticks = [FlushEntry (demo_att 2 1), FlushEntry (demo_att 3 2), FlushTimer (36 * Second) [3, 2] (36 * Second) (36 * Second)]"

theorem logged_slots_are_over_witness:
  "sorted_wrt (<) (map (unat \<circ> demo_clock 0) (ticks demo_ticks)) \<and>
   (2, [demo_att 2 1]) \<in> set (fl_jobs (flushSlots demo_clock demo_start 0 (flush_start demo_clock demo_start 0 (30 * Second) (30 * Second)) demo_ticks))"
proof -
  have "nextSlotTimer demo_clock demo_start 0 (30 * Second) (30 * Second) = 6 * Second"
    by (simp add: nextSlotTimer_def demo_clock_def demo_start_def time_sub_def Second_def)
  then have "well_timed demo_clock demo_start 0 (1000 * Second)
      (max (30 * Second) (30 * Second + nextSlotTimer demo_clock demo_start 0 (30 * Second) (30 * Second))) demo_ticks"
    by (simp add: demo_ticks_def Second_def)
  from logged_slots_are_over [OF demo_slot_clock _ _ this refl]
  have "sorted_wrt (<) (map (unat \<circ> demo_clock 0) (ticks demo_ticks))" by (simp add: Second_def)
  then show ?thesis
    by (simp add: demo_ticks_def flush_start_def on_entry_def on_timer_def demo_att_def demo_clock_def Second_def)
qed

end
