(* ===== verification/Observation_System.thy ===== *)
theory Observation_System
  imports Attestation_Pipeline Slot_Clock Simulation
begin

text \<open>
  The observation side of one instance as a whole: the attestation pipeline of \<open>Attestation_Pipeline\<close>, the
  block listener that fills the tracker, and the goroutines that log finished slots.  Such a goroutine
  reads the start time of its slot and the arrival of its block once and then counts and writes its entries
  one by one, interleaved with everything else.
\<close>

section \<open>State and steps\<close>

text \<open>
  A logging goroutine before it has read the tracker; with what it has read and the entries left; and with
  the first of them counted but not yet written.
\<close>

datatype job =
    JStart slot "bufferedAttestation list"
  | JLog slot time "string \<times> time \<times> duration" "bufferedAttestation list"
  | JWrite slot time "string \<times> time \<times> duration" bufferedAttestation "bufferedAttestation list"

record obs_state =
  ob_pipe :: pipe_state
  ob_jobs :: "job multiset"
  ob_out :: "att_metrics \<times> att_line list"
  ob_block :: block_state
  ob_msgs :: "block_in list"

definition obs_init ::
  "(time \<Rightarrow> time \<Rightarrow> slot) \<Rightarrow> (time \<Rightarrow> slot \<Rightarrow> time option) \<Rightarrow> time \<Rightarrow> u64 list \<Rightarrow> time \<Rightarrow> time \<Rightarrow> obs_state" where
  "obs_init cs stt genesis subnets now1 now2 =
     \<lparr>ob_pipe = ListenForAttestations cs stt genesis subnets now1 now2, ob_jobs = {#},
      ob_out = (zero_att_metrics, []), ob_block = block_start NewBlockTracker, ob_msgs = []\<rparr>"

text \<open>The goroutines a pipeline step starts.\<close>

definition new_jobs :: "pipe_state \<Rightarrow> pipe_state \<Rightarrow> job multiset" where
  "new_jobs p p' = mset (map (\<lambda>(s, es). JStart s es) (drop (length (fl_jobs (pi_flush p))) (fl_jobs (pi_flush p'))))"

inductive obs_step ::
  "(bytes \<Rightarrow> (slot \<times> u64) option) \<Rightarrow> (bytes \<Rightarrow> slot option) \<Rightarrow> (time \<Rightarrow> time \<Rightarrow> slot) \<Rightarrow> (time \<Rightarrow> slot \<Rightarrow> time option) \<Rightarrow> time
     \<Rightarrow> obs_state \<Rightarrow> obs_state \<Rightarrow> bool"
  for decode bdecode cs stt genesis where
  pipe: "pipe_step decode cs stt genesis (ob_pipe st) p' \<Longrightarrow>
     obs_step decode bdecode cs stt genesis st
       (st\<lparr>ob_pipe := p', ob_jobs := ob_jobs st + new_jobs (ob_pipe st) p'\<rparr>)"
| block: "BlockSubErr \<notin> set (ob_msgs st) \<Longrightarrow>
     obs_step decode bdecode cs stt genesis st
       (st\<lparr>ob_block := ListenForBlocks bdecode stt genesis True (ob_block st) [m], ob_msgs := ob_msgs st @ [m]\<rparr>)"
| no_start: "JStart s es \<in># ob_jobs st \<Longrightarrow> stt genesis s = None \<Longrightarrow>
     obs_step decode bdecode cs stt genesis st (st\<lparr>ob_jobs := ob_jobs st - {#JStart s es#}\<rparr>)"
| read: "JStart s es \<in># ob_jobs st \<Longrightarrow> stt genesis s = Some t0 \<Longrightarrow>
     obs_step decode bdecode cs stt genesis st
       (st\<lparr>ob_jobs := add_mset (JLog s t0 (block_status (Some (bs_tracker (ob_block st))) s t0) es) (ob_jobs st - {#JStart s es#})\<rparr>)"
| count: "JLog s t0 status (e # es) \<in># ob_jobs st \<Longrightarrow>
     obs_step decode bdecode cs stt genesis st
       (st\<lparr>ob_jobs := add_mset (JWrite s t0 status e es) (ob_jobs st - {#JLog s t0 status (e # es)#}),
           ob_out := (count_entry t0 status e (fst (ob_out st)), snd (ob_out st))\<rparr>)"
| line: "JWrite s t0 status e es \<in># ob_jobs st \<Longrightarrow>
     obs_step decode bdecode cs stt genesis st
       (st\<lparr>ob_jobs := add_mset (JLog s t0 status es) (ob_jobs st - {#JWrite s t0 status e es#}),
           ob_out := (fst (ob_out st), write_entry s t0 status e (snd (ob_out st)))\<rparr>)"
| finish: "JLog s t0 status [] \<in># ob_jobs st \<Longrightarrow>
     obs_step decode bdecode cs stt genesis st (st\<lparr>ob_jobs := ob_jobs st - {#JLog s t0 status []#}\<rparr>)"

section \<open>Every attestation is logged once\<close>

fun job_slot :: "job \<Rightarrow> slot" where
  "job_slot (JStart s es) = s"
| "job_slot (JLog s t0 status es) = s"
| "job_slot (JWrite s t0 status e es) = s"

fun job_entries :: "job \<Rightarrow> bufferedAttestation list" where
  "job_entries (JStart s es) = es"
| "job_entries (JLog s t0 status es) = es"
| "job_entries (JWrite s t0 status e es) = e # es"

text \<open>The goroutine has counted an attestation of the subnet and not yet written it.\<close>

fun unwritten :: "u64 \<Rightarrow> job \<Rightarrow> bool" where
  "unwritten k (JWrite s t0 status e es) \<longleftrightarrow> subnetID e = k"
| "unwritten k _ \<longleftrightarrow> False"

definition att_key :: "bufferedAttestation \<Rightarrow> u64 \<times> u64" where
  "att_key e = (subnetID e, attesterIdx e)"

definition line_key :: "att_line \<Rightarrow> u64 \<times> u64" where
  "line_key l = (ln_subnet l, ln_attester l)"

text \<open>The attestations of a slot that goroutines still have to log, and those logged.\<close>

definition running :: "obs_state \<Rightarrow> slot \<Rightarrow> bufferedAttestation multiset" where
  "running st s = (\<Sum>j \<in># filter_mset (\<lambda>j. job_slot j = s) (ob_jobs st). mset (job_entries j))"

definition logged :: "obs_state \<Rightarrow> slot \<Rightarrow> (u64 \<times> u64) multiset" where
  "logged st s = image_mset line_key (mset (filter (\<lambda>l. ln_slot l = s) (snd (ob_out st))))"

definition log_inv :: "(time \<Rightarrow> slot \<Rightarrow> time option) \<Rightarrow> time \<Rightarrow> obs_state \<Rightarrow> bool" where
  "log_inv stt g st \<longleftrightarrow>
     (\<forall>s. stt g s \<noteq> None \<longrightarrow>
        image_mset att_key (mset (flushed (pi_flush (ob_pipe st)) s)) = logged st s + image_mset att_key (running st s)) \<and>
     (\<forall>k. AttestationsReceived (fst (ob_out st)) (dec_u64 k) =
        length (filter (\<lambda>l. ln_subnet l = k) (snd (ob_out st))) + size (filter_mset (unwritten k) (ob_jobs st)))"

lemma flush_keys_append: "\<exists>js. fl_jobs (flush_keys c order st) = fl_jobs st @ js"
proof (induction order arbitrary: st)
  case (Cons k order)
  let ?st = "case fl_pending st k of None \<Rightarrow> st | Some entries \<Rightarrow>
      if k \<le> c then st\<lparr>fl_jobs := fl_jobs st @ [(k, entries)], fl_pending := (fl_pending st)(k := None)\<rparr> else st"
  have "\<exists>js. fl_jobs ?st = fl_jobs st @ js" by (auto split: option.splits)
  moreover obtain js where "fl_jobs (flush_keys c order ?st) = fl_jobs ?st @ js" using Cons.IH by blast
  ultimately show ?case by auto
qed simp

lemma pipe_step_jobs: "pipe_step decode cs stt g p p' \<Longrightarrow> \<exists>js. fl_jobs (pi_flush p') = fl_jobs (pi_flush p) @ js"
proof (induction rule: pipe_step.induct)
  case (tick order st now now1 now2)
  show ?case using flush_keys_append [of "cs g now - 1" order "pi_flush st"] by (simp add: on_timer_def Let_def)
qed (simp_all add: on_entry_def Let_def)

lemma running_new:
  "(\<Sum>j \<in># filter_mset (\<lambda>j. job_slot j = s) (mset (map (\<lambda>(s, es). JStart s es) js)). mset (job_entries j)) =
     mset (concat (map snd (filter (\<lambda>j. fst j = s) js)))"
  by (induction js) auto

lemma log_inv_pipe:
  assumes "log_inv stt g st" and "pipe_step decode cs stt g (ob_pipe st) p'"
  shows "log_inv stt g (st\<lparr>ob_pipe := p', ob_jobs := ob_jobs st + new_jobs (ob_pipe st) p'\<rparr>)"
proof -
  obtain js where js: "fl_jobs (pi_flush p') = fl_jobs (pi_flush (ob_pipe st)) @ js"
    using pipe_step_jobs [OF assms(2)] by blast
  then have "flushed (pi_flush p') s = flushed (pi_flush (ob_pipe st)) s @ concat (map snd (filter (\<lambda>j. fst j = s) js))" for s
    by (simp add: flushed_def)
  moreover have "running (st\<lparr>ob_pipe := p', ob_jobs := ob_jobs st + new_jobs (ob_pipe st) p'\<rparr>) s =
      running st s + mset (concat (map snd (filter (\<lambda>j. fst j = s) js)))" for s
    using running_new [of s js] js by (simp add: running_def new_jobs_def)
  moreover have "filter_mset (unwritten k) (mset (map (\<lambda>(s, es). JStart s es) ks)) = {#}" for k ks
    by (induction ks) auto
  then have "filter_mset (unwritten k) (new_jobs (ob_pipe st) p') = {#}" for k by (simp only: new_jobs_def)
  ultimately show ?thesis using assms(1) by (simp add: log_inv_def logged_def)
qed

lemma log_inv_count:
  assumes "log_inv stt g st" and "JLog s t0 status (e # es) \<in># ob_jobs st"
  shows "log_inv stt g (st\<lparr>ob_jobs := add_mset (JWrite s t0 status e es) (ob_jobs st - {#JLog s t0 status (e # es)#}),
      ob_out := (count_entry t0 status e (fst (ob_out st)), snd (ob_out st))\<rparr>)"
proof -
  obtain J where J: "ob_jobs st = add_mset (JLog s t0 status (e # es)) J" using assms(2) by (blast dest: multi_member_split)
  with assms(1) show ?thesis by (auto simp: log_inv_def logged_def running_def count_entry_fields label_inc_def)
qed

lemma log_inv_line:
  assumes "log_inv stt g st" and "JWrite s t0 status e es \<in># ob_jobs st"
  shows "log_inv stt g (st\<lparr>ob_jobs := add_mset (JLog s t0 status es) (ob_jobs st - {#JWrite s t0 status e es#}),
      ob_out := (fst (ob_out st), write_entry s t0 status e (snd (ob_out st)))\<rparr>)"
proof -
  obtain J where J: "ob_jobs st = add_mset (JWrite s t0 status e es) J" using assms(2) by (blast dest: multi_member_split)
  let ?st = "st\<lparr>ob_jobs := add_mset (JLog s t0 status es) (ob_jobs st - {#JWrite s t0 status e es#}),
      ob_out := (fst (ob_out st), write_entry s t0 status e (snd (ob_out st)))\<rparr>"
  have run: "running st x = (if x = s then {#e#} else {#}) + running ?st x" for x
    using J by (simp add: running_def)
  have out: "logged ?st x = logged st x + image_mset att_key (if x = s then {#e#} else {#})" for x
    by (simp add: logged_def write_entry_eq line_key_def att_key_def)
  have "AttestationsReceived (fst (ob_out ?st)) (dec_u64 k) =
      length (filter (\<lambda>l. ln_subnet l = k) (snd (ob_out ?st))) + size (filter_mset (unwritten k) (ob_jobs ?st))" for k
    using assms(1) J by (auto simp: log_inv_def write_entry_eq)
  moreover have "image_mset att_key (mset (flushed (pi_flush (ob_pipe ?st)) x)) = logged ?st x + image_mset att_key (running ?st x)"
    if "stt g x \<noteq> None" for x
    using assms(1) that run [of x] out [of x] by (auto simp: log_inv_def)
  ultimately show ?thesis unfolding log_inv_def by blast
qed

lemma log_inv_jobs:
  assumes "log_inv stt g st" and "\<And>s. stt g s \<noteq> None \<Longrightarrow> running (st\<lparr>ob_jobs := J\<rparr>) s = running st s"
    and "\<And>k. size (filter_mset (unwritten k) J) = size (filter_mset (unwritten k) (ob_jobs st))"
  shows "log_inv stt g (st\<lparr>ob_jobs := J\<rparr>)"
  using assms by (simp add: log_inv_def logged_def)

lemma obs_step_log_inv:
  assumes "obs_step decode bdecode cs stt g st st'" and inv: "log_inv stt g st"
  shows "log_inv stt g st'"
  using assms(1)
proof cases
  case (pipe p')
  with inv log_inv_pipe show ?thesis by blast
next
  case (block m)
  with inv show ?thesis by (simp add: log_inv_def logged_def running_def)
next
  case (no_start s es)
  from no_start(1) show ?thesis
    by (simp, intro log_inv_jobs [OF inv]) (use no_start(2,3) in \<open>auto simp: running_def dest!: multi_member_split\<close>)
next
  case (read s es t0)
  from read(1) show ?thesis
    by (simp, intro log_inv_jobs [OF inv]) (use read(2) in \<open>auto simp: running_def dest!: multi_member_split\<close>)
next
  case (count s t0 status e es)
  with inv log_inv_count show ?thesis by blast
next
  case (line s t0 status e es)
  with inv log_inv_line show ?thesis by blast
next
  case (finish s t0 status)
  from finish(1) show ?thesis
    by (simp, intro log_inv_jobs [OF inv]) (use finish(2) in \<open>auto simp: running_def dest!: multi_member_split\<close>)
qed

lemma obs_step_pipe_inv:
  "obs_step decode bdecode cs stt g st st' \<Longrightarrow> pipe_inv decode (ob_pipe st) \<Longrightarrow> pipe_inv decode (ob_pipe st')"
  by (induction rule: obs_step.induct) (auto intro: pipe_step_inv)

interpretation obp: simulation "obs_step decode bdecode cs stt g" "pipe_step decode cs stt g" ob_pipe "\<lambda>_. True"
proof
  fix st st'
  assume "obs_step decode bdecode cs stt g st st'"
  then show "ob_pipe st' = ob_pipe st \<or> pipe_step decode cs stt g (ob_pipe st) (ob_pipe st')" by cases auto
qed simp

lemma obs_pipe_inv:
  assumes "(obs_step decode bdecode cs stt g)\<^sup>*\<^sup>* (obs_init cs stt g subnets n1 n2) st"
  shows "pipe_inv decode (ob_pipe st)"
  by (rule obp.run_invariant [OF assms])
    (auto simp: obs_init_def intro: pipe_start_inv pipe_step_inv)

lemma obs_log_inv:
  assumes "(obs_step decode bdecode cs stt g)\<^sup>*\<^sup>* (obs_init cs stt g subnets n1 n2) st"
  shows "log_inv stt g st"
  using assms
proof (induction rule: rtranclp_induct)
  case base
  show ?case
    by (simp add: log_inv_def obs_init_def ListenForAttestations_def logged_def running_def zero_att_metrics_def)
next
  case (step st st')
  then show ?case by (blast intro: obs_step_log_inv)
qed

section \<open>Which blocks the lines refer to\<close>

abbreviation arrivals :: "(bytes \<Rightarrow> slot option) \<Rightarrow> (time \<Rightarrow> slot \<Rightarrow> time option) \<Rightarrow> time \<Rightarrow> obs_state \<Rightarrow> (slot \<times> time) list" where
  "arrivals bdecode stt g st \<equiv> block_arrivals bdecode stt g (ob_msgs st)"

definition in_order :: "(slot \<times> time) list \<Rightarrow> bool" where
  "in_order arr \<longleftrightarrow> sorted (map (unat \<circ> fst) arr)"

lemma ListenForBlocks_snoc:
  "BlockSubErr \<notin> set msgs \<Longrightarrow>
     ListenForBlocks bdecode stt g lg st (msgs @ ms) = ListenForBlocks bdecode stt g lg (ListenForBlocks bdecode stt g lg st msgs) ms"
  by (induction bdecode stt g lg st msgs rule: ListenForBlocks.induct) auto

lemma block_arrivals_append:
  "\<exists>rest. block_arrivals bdecode stt g (msgs @ ms) = block_arrivals bdecode stt g msgs @ rest"
  by (induction msgs rule: block_arrivals.induct) (auto split: option.splits)

lemma block_arrivals_snoc:
  "BlockSubErr \<notin> set msgs \<Longrightarrow>
     block_arrivals bdecode stt g (msgs @ ms) = block_arrivals bdecode stt g msgs @ block_arrivals bdecode stt g ms"
  by (induction msgs rule: block_arrivals.induct) (auto split: option.splits)

text \<open>While slots do not go back, what the tracker holds for a slot is the arrival of its first block.\<close>

lemma tracker_holds_first:
  assumes "in_order (block_arrivals bdecode stt g msgs)" and "BlockSubErr \<notin> set (butlast msgs)"
    and "GetBlockArrival (bs_tracker (ListenForBlocks bdecode stt g True (block_start NewBlockTracker) msgs)) s = Some t"
  shows "map_of (block_arrivals bdecode stt g msgs) s = Some t"
  using assms
proof (induction msgs arbitrary: s t rule: rev_induct)
  case Nil
  then show ?case by (simp add: block_start_def)
next
  case (snoc m msgs)
  let ?arr = "block_arrivals bdecode stt g msgs" and ?st = "ListenForBlocks bdecode stt g True (block_start NewBlockTracker) msgs"
  have run: "BlockSubErr \<notin> set msgs" and "BlockSubErr \<notin> set (butlast msgs)" using snoc.prems(2) by (auto dest: in_set_butlastD)
  note split = block_arrivals_snoc [OF run, of bdecode stt g "[m]"] ListenForBlocks_snoc [OF run, of bdecode stt g True "block_start NewBlockTracker" "[m]"]
  have ord: "in_order ?arr" using snoc.prems(1) split(1) by (simp add: in_order_def sorted_append)
  note IH = snoc.IH [OF ord \<open>BlockSubErr \<notin> set (butlast msgs)\<close>]
  let ?hi = "last (0 # map fst ?arr)"
  have inv: "bs_inv ?hi (map_of ?arr) ?st"
    using ListenForBlocks_inv [OF block_start_inv, of bdecode stt g msgs True] ord by (simp add: in_order_def)
  show ?case
  proof (cases "block_arrivals bdecode stt g [m]")
    case Nil
    then have "ListenForBlocks bdecode stt g True ?st [m] = ?st"
      by (cases m) (auto simp: on_block_def split: option.splits)
    with snoc.prems(3) IH split Nil show ?thesis by simp
  next
    case (Cons a rest)
    then obtain data recv k t0 where m: "m = BlockMsg data recv" "bdecode data = Some k" "stt g k = Some t0" and a: "a = (k, recv)" "rest = []"
      by (cases m) (auto split: option.splits)
    have hi: "unat ?hi \<le> unat k"
      using snoc.prems(1) split(1) Cons a by (cases ?arr rule: rev_cases) (auto simp: in_order_def sorted_append)
    then have lc: "unat (bs_lastCleanup ?st) \<le> unat k" using inv by (simp add: bs_inv_def)
    have "GetBlockArrival (bs_tracker (on_block bdecode stt g True ?st data recv)) s = Some t"
      using snoc.prems(3) split(2) m(1) by simp
    then have "s = k \<and> GetBlockArrival (bs_tracker ?st) k = None \<and> t = recv \<or> GetBlockArrival (bs_tracker ?st) s = Some t"
      unfolding on_block_get(2) [where decode = bdecode and start_time = stt, OF m(2,3) lc] by (simp split: if_splits)
    then show ?thesis
    proof
      assume 1: "s = k \<and> GetBlockArrival (bs_tracker ?st) k = None \<and> t = recv"
      have "unat ?hi \<le> unat k + 64 \<longrightarrow> GetBlockArrival (bs_tracker ?st) k = map_of ?arr k"
        using inv unfolding bs_inv_def by blast
      with hi 1 have "map_of ?arr k = None" by auto
      with 1 split(1) Cons a show ?thesis by (simp add: map_add_def)
    next
      assume "GetBlockArrival (bs_tracker ?st) s = Some t"
      from IH [OF this] split(1) show ?thesis by (simp add: map_add_def)
    qed
  qed
qed

text \<open>
  The listener's state is that of a run over the messages so far; what a goroutine has read, and what
  a line says about a block, is the first arrival.
\<close>

definition status_first ::
  "(time \<Rightarrow> slot \<Rightarrow> time option) \<Rightarrow> time \<Rightarrow> (slot \<times> time) list \<Rightarrow> slot \<Rightarrow> time \<Rightarrow> string \<times> time \<times> duration \<Rightarrow> bool" where
  "status_first stt g arr s t0 status \<longleftrightarrow> stt g s = Some t0 \<and>
     (fst status = ''proposed'' \<longrightarrow> (\<exists>t. map_of arr s = Some t \<and> snd status = (t, time_sub t t0)))"

fun job_ok :: "(time \<Rightarrow> slot \<Rightarrow> time option) \<Rightarrow> time \<Rightarrow> (slot \<times> time) list \<Rightarrow> job \<Rightarrow> bool" where
  "job_ok stt g arr (JStart s es) = True"
| "job_ok stt g arr (JLog s t0 status es) = status_first stt g arr s t0 status"
| "job_ok stt g arr (JWrite s t0 status e es) = status_first stt g arr s t0 status"

definition line_ok :: "(time \<Rightarrow> slot \<Rightarrow> time option) \<Rightarrow> time \<Rightarrow> (slot \<times> time) list \<Rightarrow> att_line \<Rightarrow> bool" where
  "line_ok stt g arr l \<longleftrightarrow> (ln_block l = ''proposed'' \<longrightarrow>
     (\<exists>t t0. map_of arr (ln_slot l) = Some t \<and> stt g (ln_slot l) = Some t0 \<and>
        ln_blockTimeInSlotMs l = Some (Milliseconds (time_sub t t0))))"

definition blk_inv :: "(bytes \<Rightarrow> slot option) \<Rightarrow> (time \<Rightarrow> slot \<Rightarrow> time option) \<Rightarrow> time \<Rightarrow> obs_state \<Rightarrow> bool" where
  "blk_inv bdecode stt g st \<longleftrightarrow>
     ob_block st = ListenForBlocks bdecode stt g True (block_start NewBlockTracker) (ob_msgs st) \<and>
     BlockSubErr \<notin> set (butlast (ob_msgs st)) \<and>
     (\<forall>j \<in># ob_jobs st. job_ok stt g (arrivals bdecode stt g st) j) \<and>
     (\<forall>l \<in> set (snd (ob_out st)). line_ok stt g (arrivals bdecode stt g st) l)"

lemma job_ok_later: "job_ok stt g arr j \<Longrightarrow> job_ok stt g (arr @ rest) j"
  by (cases j) (auto simp: status_first_def map_add_def)

lemma line_ok_later: "line_ok stt g arr l \<Longrightarrow> line_ok stt g (arr @ rest) l"
  by (auto simp: line_ok_def map_add_def)

lemma job_ok_new: "j \<in># new_jobs p p' \<Longrightarrow> job_ok stt g arr j"
  by (auto simp: new_jobs_def)

lemma blk_inv_jobs:
  "blk_inv bdecode stt g st \<Longrightarrow> (\<And>j. j \<in># J \<Longrightarrow> j \<in># ob_jobs st \<or> job_ok stt g (arrivals bdecode stt g st) j) \<Longrightarrow>
     blk_inv bdecode stt g (st\<lparr>ob_jobs := J\<rparr>)"
  by (auto simp: blk_inv_def)

lemma read_job_ok:
  assumes "in_order (arrivals bdecode stt g st)" and "blk_inv bdecode stt g st" and "stt g s = Some t0"
  shows "job_ok stt g (arrivals bdecode stt g st) (JLog s t0 (block_status (Some (bs_tracker (ob_block st))) s t0) es)"
proof -
  have "map_of (arrivals bdecode stt g st) s = Some t" if "GetBlockArrival (bs_tracker (ob_block st)) s = Some t" for t
    using tracker_holds_first [OF assms(1)] assms(2) that by (simp add: blk_inv_def)
  with assms(3) show ?thesis by (auto simp: status_first_def block_status_def split: option.splits)
qed

lemma obs_step_blk_inv:
  assumes "obs_step decode bdecode cs stt g st st'" and inv: "blk_inv bdecode stt g st"
    and ord: "in_order (arrivals bdecode stt g st')"
  shows "blk_inv bdecode stt g st'"
  using assms(1)
proof cases
  case (pipe p')
  have "blk_inv bdecode stt g (st\<lparr>ob_jobs := ob_jobs st + new_jobs (ob_pipe st) p'\<rparr>)"
    by (rule blk_inv_jobs [OF inv]) (auto intro: job_ok_new)
  with pipe(1) show ?thesis by (simp add: blk_inv_def)
next
  case (block m)
  obtain rest where rest: "block_arrivals bdecode stt g (ob_msgs st @ [m]) = arrivals bdecode stt g st @ rest"
    using block_arrivals_append by blast
  with block inv show ?thesis
    by (auto simp: blk_inv_def ListenForBlocks_snoc job_ok_later line_ok_later)
next
  case (no_start s es)
  from blk_inv_jobs [OF inv, of "ob_jobs st - {#JStart s es#}"] no_start(1) show ?thesis by (auto dest: in_diffD)
next
  case (read s es t0)
  have "in_order (arrivals bdecode stt g st)" using ord read(1) by simp
  from read_job_ok [OF this inv read(3), of es] read(1) show ?thesis
    by (simp, intro blk_inv_jobs [OF inv]) (auto dest: in_diffD)
next
  case (count s t0 status e es)
  have job: "job_ok stt g (arrivals bdecode stt g st) (JLog s t0 status (e # es))"
    using inv count(2) unfolding blk_inv_def by blast
  have "blk_inv bdecode stt g (st\<lparr>ob_jobs := add_mset (JWrite s t0 status e es) (ob_jobs st - {#JLog s t0 status (e # es)#})\<rparr>)"
    by (rule blk_inv_jobs [OF inv]) (use job in \<open>auto dest: in_diffD\<close>)
  then show ?thesis using count(1) by (auto simp: blk_inv_def)
next
  case (line s t0 status e es)
  have job: "job_ok stt g (arrivals bdecode stt g st) (JWrite s t0 status e es)"
    using inv line(2) unfolding blk_inv_def by blast
  have "blk_inv bdecode stt g (st\<lparr>ob_jobs := add_mset (JLog s t0 status es) (ob_jobs st - {#JWrite s t0 status e es#})\<rparr>)"
    by (rule blk_inv_jobs [OF inv]) (use job in \<open>auto dest: in_diffD\<close>)
  moreover have "line_ok stt g (arrivals bdecode stt g st) l" if "l \<in> set (write_entry s t0 status e (snd (ob_out st)))" for l
    using that job inv by (auto simp: write_entry_eq line_ok_def blk_inv_def status_first_def)
  ultimately show ?thesis using line(1) by (auto simp: blk_inv_def)
next
  case (finish s t0 status)
  from blk_inv_jobs [OF inv, of "ob_jobs st - {#JLog s t0 status []#}"] finish(1) show ?thesis by (auto dest: in_diffD)
qed

lemma obs_step_arrivals: "obs_step decode bdecode cs stt g st st' \<Longrightarrow>
    \<exists>rest. arrivals bdecode stt g st' = arrivals bdecode stt g st @ rest"
  by (induction rule: obs_step.induct) (auto simp: block_arrivals_append)

lemma obs_blk_inv:
  assumes "(obs_step decode bdecode cs stt g)\<^sup>*\<^sup>* (obs_init cs stt g subnets n1 n2) st"
    and "in_order (arrivals bdecode stt g st)"
  shows "blk_inv bdecode stt g st"
  using assms
proof (induction rule: rtranclp_induct)
  case base
  show ?case by (simp add: blk_inv_def obs_init_def)
next
  case (step st st')
  from obs_step_arrivals [OF step.hyps(2)] step.prems have "in_order (arrivals bdecode stt g st)"
    by (auto simp: in_order_def sorted_append)
  with step show ?case by (blast intro: obs_step_blk_inv)
qed

section \<open>A concrete run\<close>

text \<open>An attestation of slot 2 and its block arrive, the slot ends, and the attestation is logged.\<close>

lemma pipe_reach_jobs: "pipe_reach decode cs stt g p0 p \<Longrightarrow> \<exists>js. fl_jobs (pi_flush p) = fl_jobs (pi_flush p0) @ js"
  by (induction rule: pipe_reach.induct) (auto dest: pipe_step_jobs)

lemma obs_follow_pipe:
  assumes "pipe_reach decode cs stt g (ob_pipe st) p" and "fl_jobs (pi_flush p) = fl_jobs (pi_flush (ob_pipe st))"
  shows "(obs_step decode bdecode cs stt g)\<^sup>*\<^sup>* st (st\<lparr>ob_pipe := p\<rparr>)"
  using assms
proof (induction rule: pipe_reach.induct)
  case (step p p')
  obtain js ks where "fl_jobs (pi_flush p) = fl_jobs (pi_flush (ob_pipe st)) @ js" and "fl_jobs (pi_flush p') = fl_jobs (pi_flush p) @ ks"
    using pipe_reach_jobs [OF step.hyps(1)] pipe_step_jobs [OF step.hyps(2)] by blast
  with step.prems have same: "fl_jobs (pi_flush p) = fl_jobs (pi_flush (ob_pipe st))" "fl_jobs (pi_flush p') = fl_jobs (pi_flush p)"
    by simp_all
  have "obs_step decode bdecode cs stt g (st\<lparr>ob_pipe := p\<rparr>) (st\<lparr>ob_pipe := p'\<rparr>)"
    using obs_step.pipe [of decode cs stt g "st\<lparr>ob_pipe := p\<rparr>" p' bdecode] step.hyps(2) same by (simp add: new_jobs_def)
  with step.IH [OF same(1)] show ?case by (rule rtranclp.rtrancl_into_rtrancl)
qed simp

definition demo_entry :: bufferedAttestation where
  "demo_entry = \<lparr>receiveTime = 30, subnetID = 6, att_slot = 2, attesterIdx = 9\<rparr>"

definition demo_pending :: pipe_state where
  "demo_pending = demo_pipe\<lparr>pi_chan := [], pi_flush := (pi_flush demo_pipe)\<lparr>fl_pending := [2 \<mapsto> [demo_entry]]\<rparr>\<rparr>"

definition demo_flushed :: pipe_state where
  "demo_flushed = demo_pending\<lparr>pi_flush := on_timer demo_clock demo_start 0 (pi_flush demo_pending) (36 * Second) [2] (36 * Second) (36 * Second)\<rparr>"

definition demo_obs :: obs_state where
  "demo_obs = (obs_init demo_clock demo_start 0 [6] 0 0)\<lparr>ob_pipe := demo_flushed,
     ob_jobs := {#JLog 2 (24 * Second) (''proposed'', 26 * Second, 2 * Second) []#},
     ob_out := log_entry 2 (24 * Second) (''proposed'', 26 * Second, 2 * Second) demo_entry (zero_att_metrics, []),
     ob_block := ListenForBlocks demo_decode demo_start 0 True (block_start NewBlockTracker) [BlockMsg [2] (26 * Second)],
     ob_msgs := [BlockMsg [2] (26 * Second)]\<rparr>"

lemma demo_pending_reach:
  "pipe_reach demo_att_decode demo_clock demo_start 0 (ListenForAttestations demo_clock demo_start 0 [6] 0 0) demo_pending"
proof -
  have "pipe_step demo_att_decode demo_clock demo_start 0 demo_pipe
      (demo_pipe\<lparr>pi_chan := [], pi_flush := on_entry (pi_flush demo_pipe) demo_entry\<rparr>)"
    by (rule pipe_step.receive) (simp add: demo_pipe_def demo_entry_def)
  moreover have "on_entry (pi_flush demo_pipe) demo_entry = (pi_flush demo_pipe)\<lparr>fl_pending := [2 \<mapsto> [demo_entry]]\<rparr>"
    by (simp add: on_entry_def demo_pipe_def demo_entry_def ListenForAttestations_def flush_start_def)
  ultimately show ?thesis
    using pipe_reach.step [OF demo_pipe_reach] by (simp add: demo_pending_def)
qed

lemma demo_obs_reach:
  "(obs_step demo_att_decode demo_decode demo_clock demo_start 0)\<^sup>*\<^sup>* (obs_init demo_clock demo_start 0 [6] 0 0) demo_obs"
proof -
  let ?R = "obs_step demo_att_decode demo_decode demo_clock demo_start 0" and ?i = "obs_init demo_clock demo_start 0 [6] 0 0"
  let ?m = "BlockMsg [2] (26 * Second)"
  let ?b = "ListenForBlocks demo_decode demo_start 0 True (block_start NewBlockTracker) [?m]"
  let ?st = "(''proposed'', 26 * Second, 2 * Second)"
  have step: "?R\<^sup>*\<^sup>* ?i z" if "?R\<^sup>*\<^sup>* ?i x" "?R x y" "z = y" for x y z
    using that by (auto intro: rtranclp.rtrancl_into_rtrancl)
  have pend: "fl_pending (pi_flush demo_pending) = [2 \<mapsto> [demo_entry]]" "fl_jobs (pi_flush demo_pending) = []"
    by (simp_all add: demo_pending_def demo_pipe_def ListenForAttestations_def flush_start_def)
  have jobs: "fl_jobs (pi_flush demo_flushed) = [(2, [demo_entry])]"
    by (simp add: demo_flushed_def on_timer_def pend demo_clock_def Second_def)
  have "?R\<^sup>*\<^sup>* ?i (?i\<lparr>ob_pipe := demo_pending\<rparr>)"
    by (rule obs_follow_pipe) (use demo_pending_reach pend in \<open>simp_all add: obs_init_def ListenForAttestations_def flush_start_def\<close>)
  then have "?R\<^sup>*\<^sup>* ?i (?i\<lparr>ob_pipe := demo_pending, ob_block := ?b, ob_msgs := [?m]\<rparr>)"
    by (rule step [OF _ obs_step.block [of _ _ _ _ _ _ ?m]]) (simp_all add: obs_init_def)
  then have "?R\<^sup>*\<^sup>* ?i (?i\<lparr>ob_pipe := demo_flushed, ob_jobs := {#JStart 2 [demo_entry]#}, ob_block := ?b, ob_msgs := [?m]\<rparr>)"
  proof (rule step [OF _ obs_step.pipe [of _ _ _ _ _ demo_flushed]])
    show "pipe_step demo_att_decode demo_clock demo_start 0 (ob_pipe (?i\<lparr>ob_pipe := demo_pending, ob_block := ?b, ob_msgs := [?m]\<rparr>)) demo_flushed"
      unfolding demo_flushed_def using pipe_step.tick [of "[2]" demo_pending] pend by simp
  qed (simp add: new_jobs_def jobs pend obs_init_def)
  moreover have "block_status (Some (bs_tracker ?b)) 2 (24 * Second) = ?st"
    by (simp add: block_status_def on_block_def demo_decode_def demo_start_def block_start_def Let_def Second_def time_sub_def)
  ultimately have "?R\<^sup>*\<^sup>* ?i (?i\<lparr>ob_pipe := demo_flushed, ob_jobs := {#JLog 2 (24 * Second) ?st [demo_entry]#}, ob_block := ?b, ob_msgs := [?m]\<rparr>)"
    by (elim step [OF _ obs_step.read [of 2 "[demo_entry]" _ _ _ "24 * Second"]]) (simp_all add: demo_start_def)
  then have "?R\<^sup>*\<^sup>* ?i (?i\<lparr>ob_pipe := demo_flushed, ob_jobs := {#JWrite 2 (24 * Second) ?st demo_entry []#},
      ob_out := (count_entry (24 * Second) ?st demo_entry zero_att_metrics, []), ob_block := ?b, ob_msgs := [?m]\<rparr>)"
    by (rule step [OF _ obs_step.count [of 2 "24 * Second" ?st demo_entry "[]"]]) (simp_all add: obs_init_def)
  then show ?thesis
    by (rule step [OF _ obs_step.line [of 2 "24 * Second" ?st demo_entry "[]"]]) (simp_all add: demo_obs_def obs_init_def log_entry_def)
qed

section \<open>Properties\<close>

text \<open>
  C4: every attestation is logged exactly once, from the wire to the file.  In every state the
  observation side can reach, with collectors, flusher, block listener and logging goroutines
  interleaved in any way, and for every slot with a start time: the attestations decoded for the slot
  are, by subnet and attester and as a multiset, those in the lines of the log, those a logging
  goroutine still holds, those pending in the flusher, those in the channel and those a collector
  is about to send.  And the counter of every subnet is the number of lines with that subnet and of goroutines
  that have counted an attestation of it and are about to write its line.
\<close>

theorem attestations_logged_once:
  assumes "(obs_step decode bdecode cs stt g)\<^sup>*\<^sup>* (obs_init cs stt g subnets n1 n2) st" and "stt g s = Some t0"
  shows "image_mset (\<lambda>e. (subnetID e, attesterIdx e))
       (mset (filter (\<lambda>e. att_slot e = s) (concat (map (\<lambda>c. collectSubnet decode (c_subnet c) (c_log c)) (pi_cols (ob_pipe st)))))) =
     image_mset (\<lambda>l. (ln_subnet l, ln_attester l)) (mset (filter (\<lambda>l. ln_slot l = s) (snd (ob_out st)))) +
     image_mset (\<lambda>e. (subnetID e, attesterIdx e))
       (running st s + mset (waiting (pi_flush (ob_pipe st)) s) + at_slot s (pi_chan (ob_pipe st)) +
        at_slot s (concat (map held (pi_cols (ob_pipe st))))) \<and>
     AttestationsReceived (fst (ob_out st)) (dec_u64 k) =
       length (filter (\<lambda>l. ln_subnet l = k) (snd (ob_out st))) + size (filter_mset (unwritten k) (ob_jobs st))"
proof -
  have keys: "(\<lambda>e. (subnetID e, attesterIdx e)) = att_key" "(\<lambda>l. (ln_subnet l, ln_attester l)) = line_key"
    by (simp_all add: fun_eq_iff att_key_def line_key_def)
  from obs_log_inv [OF assms(1)] assms(2)
  have "image_mset att_key (mset (flushed (pi_flush (ob_pipe st)) s)) = logged st s + image_mset att_key (running st s)"
    and count: "AttestationsReceived (fst (ob_out st)) (dec_u64 k) =
      length (filter (\<lambda>l. ln_subnet l = k) (snd (ob_out st))) + size (filter_mset (unwritten k) (ob_jobs st))"
    by (simp_all add: log_inv_def)
  moreover have "mset (filter (\<lambda>e. att_slot e = s) (concat (map (\<lambda>c. collectSubnet decode (c_subnet c) (c_log c)) (pi_cols (ob_pipe st))))) =
      mset (flushed (pi_flush (ob_pipe st)) s) + mset (waiting (pi_flush (ob_pipe st)) s) +
      at_slot s (pi_chan (ob_pipe st)) + at_slot s (concat (map held (pi_cols (ob_pipe st))))"
    using pipe_inv_D(1) [OF obs_pipe_inv [OF assms(1)], of s] by (simp add: at_slot_def collected_def)
  ultimately show ?thesis unfolding keys by (simp add: logged_def ac_simps)
qed

theorem attestations_logged_once_witness:
  "image_mset (\<lambda>l. (ln_subnet l, ln_attester l)) (mset (filter (\<lambda>l. ln_slot l = 2) (snd (ob_out demo_obs)))) = {#(6, 9)#} \<and>
   AttestationsReceived (fst (ob_out demo_obs)) (dec_u64 6) = 1"
proof -
  have lines: "snd (ob_out demo_obs) = [\<lparr>ln_subnet = 6, ln_slot = 2, ln_timeInSlotMs = Milliseconds (time_sub 30 (24 * Second)),
      ln_arrivalDelayMs = Milliseconds (time_sub 30 (26 * Second)), ln_attester = 9, ln_block = ''proposed'',
      ln_blockTimeInSlotMs = Some (Milliseconds (2 * Second))\<rparr>]"
    by (simp add: demo_obs_def log_entry_fields demo_entry_def)
  have "demo_start 0 2 = Some (24 * Second)" by (simp add: demo_start_def)
  from attestations_logged_once [where stt = demo_start and g = 0 and s = 2 and k = 6, OF demo_obs_reach this]
  moreover have "filter_mset (unwritten k) (ob_jobs demo_obs) = {#}" for k by (simp add: demo_obs_def)
  ultimately show ?thesis by (simp add: lines)
qed

text \<open>
  C7: what the log says about blocks is right.  As long as the slots of the blocks received do not go
  back, in every reachable state: a line marked as proposed gives the time in the slot of the first
  block received for its slot; and a goroutine that reads the tracker now, for a slot at most 64
  behind the newest block, finds the first arrival if a block has been received and reports a missed
  slot, with four seconds into the slot as reference, if none has.
\<close>

theorem log_lines_name_first_block:
  assumes "(obs_step decode bdecode cs stt g)\<^sup>*\<^sup>* (obs_init cs stt g subnets n1 n2) st"
    and "arr = block_arrivals bdecode stt g (ob_msgs st)" and "sorted (map (unat \<circ> fst) arr)"
  shows "(\<forall>l \<in> set (snd (ob_out st)). ln_block l = ''proposed'' \<longrightarrow>
       (\<exists>t t0. map_of arr (ln_slot l) = Some t \<and> stt g (ln_slot l) = Some t0 \<and>
          ln_blockTimeInSlotMs l = Some (Milliseconds (time_sub t t0)))) \<and>
     (unat (last (0 # map fst arr)) \<le> unat s + 64 \<longrightarrow>
       block_status (Some (bs_tracker (ob_block st))) s t0 =
         (case map_of arr s of Some t \<Rightarrow> (''proposed'', t, time_sub t t0) | None \<Rightarrow> (''missed'', t0 + 4 * Second, 0)))"
proof -
  have ord: "in_order arr" using assms(3) by (simp add: in_order_def)
  then have inv: "blk_inv bdecode stt g st" using obs_blk_inv [OF assms(1)] assms(2) by simp
  have "bs_inv (last (0 # map fst arr)) (map_of arr) (ob_block st)"
    using ListenForBlocks_inv [OF block_start_inv, of bdecode stt g "ob_msgs st" True] inv ord assms(2)
    by (simp add: blk_inv_def in_order_def)
  then have "unat (last (0 # map fst arr)) \<le> unat s + 64 \<longrightarrow> GetBlockArrival (bs_tracker (ob_block st)) s = map_of arr s"
    unfolding bs_inv_def by blast
  moreover have "\<forall>l \<in> set (snd (ob_out st)). line_ok stt g arr l"
    using inv assms(2) by (simp add: blk_inv_def)
  ultimately show ?thesis by (auto simp: line_ok_def block_status_def time_add_def split: option.splits)
qed

theorem log_lines_name_first_block_witness:
  "\<exists>l t t0. l \<in> set (snd (ob_out demo_obs)) \<and>
     map_of (block_arrivals demo_decode demo_start 0 (ob_msgs demo_obs)) (ln_slot l) = Some t \<and> demo_start 0 (ln_slot l) = Some t0 \<and>
     ln_blockTimeInSlotMs l = Some (Milliseconds (time_sub t t0))"
proof -
  have "sorted (map (unat \<circ> fst) (block_arrivals demo_decode demo_start 0 (ob_msgs demo_obs)))"
    by (simp add: demo_obs_def demo_decode_def demo_start_def)
  note lines = log_lines_name_first_block [OF demo_obs_reach refl this, THEN conjunct1]
  have "snd (ob_out demo_obs) \<noteq> []" and "\<forall>l \<in> set (snd (ob_out demo_obs)). ln_block l = ''proposed''"
    by (simp_all add: demo_obs_def log_entry_fields)
  then have "hd (snd (ob_out demo_obs)) \<in> set (snd (ob_out demo_obs))" and "ln_block (hd (snd (ob_out demo_obs))) = ''proposed''"
    by auto
  with lines show ?thesis by blast
qed

end
