(* ===== verification/Crawl_System.thy ===== *)
theory Crawl_System
  imports Discovery
begin

text \<open>
  Crawl mode as a whole: the discovery loops (discv5 and, if configured, discv4: \<^verbatim>\<open>discoverPeers\<close>), the
  finder they route to, the crawl writer and the connection notifier that writes to it.  The loops
  are not atomic: between the check for a connection, \<^verbatim>\<open>HasPeer\<close>, \<^verbatim>\<open>RegisterENR\<close> and \<^verbatim>\<open>Route\<close>, anything else
  may happen.  The dialler connects to peers of the finder; other peers may connect on their own, and a
  peer may have several connections.  libp2p calls the notifier once for every connection, some time after the
  connection can be seen.  The file is opened for appending, so it may hold records of earlier runs, of
  which the writer knows nothing.  The nodes are those an iterator delivers, so they are past its fork filter; writes
  to the file succeed.
\<close>

section \<open>State and steps\<close>

text \<open>Where a loop stands while it handles a node; each constructor names the call that comes next.\<close>

datatype loop_pc =
    LoopNext
  | LoopHasPeer AddrInfo string
  | LoopRegister AddrInfo string
  | LoopRoute AddrInfo

text \<open>\<open>cr_conns\<close> are the open connections, by peer; \<open>cr_notes\<close> those the notifier has not been called for yet.\<close>

record crawl_state =
  cr_pf :: PeerFinder
  cr_reg :: SharedPeerSet
  cr_writer :: crawlFileWriter
  cr_loops :: "nat \<Rightarrow> loop_pc"
  cr_conns :: "peer_id multiset"
  cr_notes :: "peer_id multiset"
  cr_dialled :: "peer_id set"

text \<open>\<open>old\<close> are the lines of the file when it is opened.\<close>

definition crawl_init :: "string \<Rightarrow> string list \<Rightarrow> crawl_state" where
  "crawl_init name old =
     \<lparr>cr_pf = NewPeerFinder [(name, idle_host)], cr_reg = \<lparr>assignments = Map.empty, instances = [name], nextIdx = 0\<rparr>,
      cr_writer = newCrawlFileWriter old, cr_loops = (\<lambda>_. LoopNext), cr_conns = {#}, cr_notes = {#}, cr_dialled = {}\<rparr>"

inductive crawl_step :: "enode_lib \<Rightarrow> bool \<Rightarrow> crawl_state \<Rightarrow> crawl_state \<Rightarrow> bool" for lib quicOnly where
  node: "cr_loops st i = LoopNext \<Longrightarrow> node_candidate lib quicOnly n = Some ai \<Longrightarrow> ai_id ai \<notin># cr_conns st \<Longrightarrow>
     crawl_step lib quicOnly st (st\<lparr>cr_loops := (cr_loops st)(i := LoopHasPeer ai (en_String n))\<rparr>)"
| has_peer: "cr_loops st i = LoopHasPeer ai e \<Longrightarrow>
     crawl_step lib quicOnly st (st\<lparr>cr_loops := (cr_loops st)(i :=
       if HasPeer (cr_writer st) (ai_id ai) then LoopNext else LoopRegister ai e)\<rparr>)"
| register: "cr_loops st i = LoopRegister ai e \<Longrightarrow>
     crawl_step lib quicOnly st (st\<lparr>cr_writer := RegisterENR (cr_writer st) (ai_id ai) e,
       cr_loops := (cr_loops st)(i := LoopRoute ai)\<rparr>)"
| route: "cr_loops st i = LoopRoute ai \<Longrightarrow> Route (cr_pf st) (cr_reg st) ai = Inr (pf', r') \<Longrightarrow>
     crawl_step lib quicOnly st (st\<lparr>cr_pf := pf', cr_reg := r', cr_loops := (cr_loops st)(i := LoopNext)\<rparr>)"
| dialled: "p \<in> known_peers (cr_pf st) \<Longrightarrow>
     crawl_step lib quicOnly st (st\<lparr>cr_conns := add_mset p (cr_conns st), cr_notes := add_mset p (cr_notes st),
       cr_dialled := insert p (cr_dialled st)\<rparr>)"
| inbound: "crawl_step lib quicOnly st (st\<lparr>cr_conns := add_mset p (cr_conns st), cr_notes := add_mset p (cr_notes st)\<rparr>)"
| notify: "p \<in># cr_notes st \<Longrightarrow>
     crawl_step lib quicOnly st (st\<lparr>cr_notes := cr_notes st - {#p#}, cr_writer := WriteConnected (cr_writer st) p\<rparr>)"
| disconnect: "crawl_step lib quicOnly st (st\<lparr>cr_conns := cr_conns st - {#p#}\<rparr>)"

inductive crawl_reach :: "enode_lib \<Rightarrow> bool \<Rightarrow> crawl_state \<Rightarrow> crawl_state \<Rightarrow> bool" for lib quicOnly st0 where
  start: "crawl_reach lib quicOnly st0 st0"
| step: "crawl_reach lib quicOnly st0 st \<Longrightarrow> crawl_step lib quicOnly st st' \<Longrightarrow> crawl_reach lib quicOnly st0 st'"

section \<open>Invariant\<close>

definition crawl_inv :: "string list \<Rightarrow> crawl_state \<Rightarrow> bool" where
  "crawl_inv old st \<longleftrightarrow>
     pf_ok (cr_pf st, cr_reg st) \<and>
     (\<forall>p \<in> known_peers (cr_pf st). HasPeer (cr_writer st) p) \<and>
     (\<forall>i ai. cr_loops st i = LoopRoute ai \<longrightarrow> HasPeer (cr_writer st) (ai_id ai)) \<and>
     (\<forall>p \<in> cr_dialled st. HasPeer (cr_writer st) p \<and> (p \<in># cr_notes st \<or> p \<in> cw_seen (cr_writer st))) \<and>
     (\<exists>ops ws. cw_rel old ops ws (cr_writer st))"

lemma HasPeer_WriteConnected: "HasPeer c q \<Longrightarrow> HasPeer (WriteConnected c p) q"
  by (auto simp: HasPeer_def WriteConnected_def Let_def split: option.splits if_splits)

lemma WriteConnected_seen:
  "cw_seen c \<subseteq> cw_seen (WriteConnected c p)" "HasPeer c p \<Longrightarrow> p \<in> cw_seen (WriteConnected c p)"
  by (auto simp: HasPeer_def WriteConnected_def Let_def split: option.splits if_splits)

lemma cw_rel_ops:
  assumes "cw_rel old ops ws c"
  shows "\<exists>ops ws. cw_rel old ops ws (RegisterENR c p e)" and "\<exists>ops ws. cw_rel old ops ws (WriteConnected c p)"
  using cw_rel_step [OF assms, of "CwRegister p e"] cw_rel_step [OF assms, of "CwConnected p"] by auto

lemma crawl_step_inv:
  assumes "crawl_step lib quicOnly st st'" and inv: "crawl_inv old st"
  shows "crawl_inv old st'"
  using assms(1)
proof cases
  case (node i n ai)
  with inv show ?thesis by (auto simp: crawl_inv_def)
next
  case (has_peer i ai e)
  with inv show ?thesis by (auto simp: crawl_inv_def)
next
  case (register i ai e)
  with inv show ?thesis by (auto simp: crawl_inv_def cw_rel_ops) (auto simp: RegisterENR_def)
next
  case (route i ai pf' r')
  have ok: "pf_ok (cr_pf st, cr_reg st)" using inv by (simp add: crawl_inv_def)
  have rt: "pf_route (cr_pf st, cr_reg st) ai = Inr (pf', r')" using route by (simp add: pf_route_def)
  from pfr.route_inv [OF ok rt] pfr.route_known [OF ok rt] route inv show ?thesis
    by (auto simp: crawl_inv_def)
next
  case (dialled p)
  with inv show ?thesis by (auto simp: crawl_inv_def)
next
  case (inbound p)
  with inv show ?thesis by (auto simp: crawl_inv_def)
next
  case (notify p)
  have "q \<in># cr_notes st - {#p#} \<or> q \<in> cw_seen (WriteConnected (cr_writer st) p)" if "q \<in> cr_dialled st" for q
    using that inv WriteConnected_seen [of "cr_writer st" p] notify(2)
    by (cases "q = p") (auto simp: crawl_inv_def in_diff_count)
  with notify(1) inv show ?thesis
    by (auto simp: crawl_inv_def HasPeer_WriteConnected cw_rel_ops)
next
  case (disconnect p)
  with inv show ?thesis by (auto simp: crawl_inv_def)
qed

lemma crawl_init_inv: "crawl_inv old (crawl_init name old)"
proof -
  have "NewSharedPeerSet (map fst [(name, idle_host)]) = Inr \<lparr>assignments = Map.empty, instances = [name], nextIdx = 0\<rparr>"
    by (simp add: NewSharedPeerSet_def)
  from New_pf_ok(1) [OF this] New_pf_ok(2) [OF this] cw_run_rel [of old "[]"] show ?thesis
    by (auto simp: crawl_inv_def crawl_init_def known_peers_def newCrawlFileWriter_def)
qed

lemma crawl_reach_inv: "crawl_reach lib quicOnly st0 st \<Longrightarrow> crawl_inv old st0 \<Longrightarrow> crawl_inv old st"
  by (induction rule: crawl_reach.induct) (auto intro: crawl_step_inv)

section \<open>Properties\<close>

text \<open>
  C8: the crawl file is complete for what the crawler dials, and a run adds no duplicates.  In every
  reachable state, however the loops, the dialler, the notifier and the other peers interleave, every
  peer the dialler has connected to is recorded once the notifier has run for its connections; and the file
  holds what it held when it was opened followed by exactly one record for each peer recorded in
  this run.  A peer recorded by an earlier run may be recorded again.
\<close>

theorem crawl_records_every_dialled_peer:
  assumes "crawl_reach lib quicOnly (crawl_init name old) st"
  shows "(\<forall>p \<in> cr_dialled st. p \<in># cr_notes st \<or> p \<in> cw_seen (cr_writer st)) \<and>
     (\<exists>ws. cw_lines (cr_writer st) = old @ map snd ws \<and> distinct (map fst ws) \<and> fst ` set ws = cw_seen (cr_writer st))"
proof -
  have inv: "crawl_inv old st" by (rule crawl_reach_inv [OF assms crawl_init_inv])
  then obtain ops ws where "cw_rel old ops ws (cr_writer st)" by (auto simp: crawl_inv_def)
  with inv show ?thesis by (auto simp: crawl_inv_def cw_rel_def)
qed

text \<open>An undisturbed run for one candidate: checked, registered, routed, dialled, notified.\<close>

lemma crawl_can_dial:
  assumes "node_candidate lib quicOnly n = Some ai"
  shows "\<exists>st. crawl_reach lib quicOnly (crawl_init name old) st \<and> ai_id ai \<in> cr_dialled st \<and> cr_notes st = {#} \<and>
     cw_lines (cr_writer st) = old @ [en_String n]"
proof -
  let ?p = "ai_id ai" and ?e = "en_String n" and ?i = "crawl_init name old"
  let ?s1 = "?i\<lparr>cr_loops := (cr_loops ?i)(0 := LoopHasPeer ai ?e)\<rparr>"
  let ?s2 = "?s1\<lparr>cr_loops := (cr_loops ?s1)(0 := if HasPeer (cr_writer ?s1) ?p then LoopNext else LoopRegister ai ?e)\<rparr>"
  let ?s3 = "?s2\<lparr>cr_writer := RegisterENR (cr_writer ?s2) ?p ?e, cr_loops := (cr_loops ?s2)(0 := LoopRoute ai)\<rparr>"
  have 1: "crawl_step lib quicOnly ?i ?s1" by (rule crawl_step.node) (simp_all add: crawl_init_def assms)
  have 2: "crawl_step lib quicOnly ?s1 ?s2" by (rule crawl_step.has_peer) simp
  have 3: "crawl_step lib quicOnly ?s2 ?s3"
    by (rule crawl_step.register) (simp add: crawl_init_def HasPeer_def newCrawlFileWriter_def)
  have reach: "crawl_reach lib quicOnly ?i ?s3"
    by (rule crawl_reach.step [OF crawl_reach.step [OF crawl_reach.step [OF crawl_reach.start 1] 2] 3])
  have ok: "pf_ok (cr_pf ?s3, cr_reg ?s3)"
    using crawl_reach_inv [OF reach crawl_init_inv] by (simp add: crawl_inv_def)
  then obtain pf' r' where rt: "pf_route (cr_pf ?s3, cr_reg ?s3) ai = Inr (pf', r')"
    using pfr.route_total [of "(cr_pf ?s3, cr_reg ?s3)" ai] by auto
  let ?s4 = "?s3\<lparr>cr_pf := pf', cr_reg := r', cr_loops := (cr_loops ?s3)(0 := LoopNext)\<rparr>"
  let ?s5 = "?s4\<lparr>cr_conns := add_mset ?p (cr_conns ?s4), cr_notes := add_mset ?p (cr_notes ?s4),
      cr_dialled := insert ?p (cr_dialled ?s4)\<rparr>"
  let ?s6 = "?s5\<lparr>cr_notes := cr_notes ?s5 - {#?p#}, cr_writer := WriteConnected (cr_writer ?s5) ?p\<rparr>"
  have 4: "crawl_step lib quicOnly ?s3 ?s4"
    by (rule crawl_step.route [where ai = ai]) (use rt in \<open>simp_all add: pf_route_def\<close>)
  have "?p \<in> known_peers pf'" using pfr.route_known [OF ok rt] by simp
  then have 5: "crawl_step lib quicOnly ?s4 ?s5" by (intro crawl_step.dialled) simp
  have 6: "crawl_step lib quicOnly ?s5 ?s6" by (rule crawl_step.notify) simp
  have "crawl_reach lib quicOnly ?i ?s6"
    by (rule crawl_reach.step [OF crawl_reach.step [OF crawl_reach.step [OF reach 4] 5] 6])
  moreover have "?p \<in> cr_dialled ?s6" "cr_notes ?s6 = {#}" "cw_lines (cr_writer ?s6) = old @ [?e]"
    by (simp_all add: crawl_init_def RegisterENR_def WriteConnected_def newCrawlFileWriter_def HasPeer_def)
  ultimately show ?thesis by blast
qed

text \<open>A second run over the same file records a peer again: the writer does not read what it appends to.\<close>

lemma restart_records_again:
  assumes "node_candidate lib quicOnly n = Some ai"
  shows "\<exists>st. crawl_reach lib quicOnly (crawl_init name [en_String n]) st \<and>
     cw_lines (cr_writer st) = [en_String n, en_String n]"
  using crawl_can_dial [OF assms, of name "[en_String n]"] by auto

lemma demo_node_candidate: "\<exists>ai. node_candidate demo_lib True demo_node = Some ai \<and> ai_id ai = ''p''"
  using demo_node_passes(3) by auto

theorem crawl_records_every_dialled_peer_witness:
  "\<exists>st. crawl_reach demo_lib True (crawl_init ''a'' [''enr:old'']) st \<and> ''p'' \<in> cr_dialled st \<and> ''p'' \<in> cw_seen (cr_writer st)"
proof -
  obtain ai where ai: "node_candidate demo_lib True demo_node = Some ai" "ai_id ai = ''p''"
    using demo_node_candidate by blast
  from crawl_can_dial [OF ai(1), of "''a''" "[''enr:old'']"] ai(2) obtain st
    where st: "crawl_reach demo_lib True (crawl_init ''a'' [''enr:old'']) st" "''p'' \<in> cr_dialled st" "cr_notes st = {#}"
    by auto
  with crawl_records_every_dialled_peer [OF st(1)] show ?thesis by auto
qed

lemma unnotified_stays_unrecorded:
  assumes "(\<lambda>a b. crawl_step lib quicOnly a b \<and> count (cr_conns b) p \<le> count (cr_conns a) p)\<^sup>*\<^sup>* st st'"
    and "p \<notin># cr_notes st" and "p \<notin> cw_seen (cr_writer st)"
  shows "p \<notin># cr_notes st' \<and> p \<notin> cw_seen (cr_writer st')"
  using assms(1)
proof (induction rule: rtranclp_induct)
  case base
  then show ?case using assms(2,3) by simp
next
  case (step a b)
  then have "crawl_step lib quicOnly a b" and p: "p \<notin># cr_notes a" "p \<notin> cw_seen (cr_writer a)" "count (cr_conns b) p \<le> count (cr_conns a) p"
    by auto
  from this(1) p show ?case
    by cases (auto simp: RegisterENR_def WriteConnected_def Let_def dest: in_diffD split: option.splits if_splits)
qed

text \<open>
  C35: a peer that connects at the wrong moment is not recorded.  If a peer connects on its own, and the
  notifier runs, between the check for a connection and the registration of its record, the notifier finds
  nothing to write; the record then waits although the peer is connected, and whatever the crawler does,
  the peer stays out of the file until another connection to it is opened; only then is the record written.
\<close>

theorem crawl_race_misses_connected_peer:
  assumes "node_candidate lib quicOnly n = Some ai"
  shows "\<exists>st. crawl_reach lib quicOnly (crawl_init name old) st \<and> ai_id ai \<in># cr_conns st \<and>
     ai_id ai \<in> known_peers (cr_pf st) \<and> cw_pending (cr_writer st) (ai_id ai) = Some (en_String n) \<and>
     (\<forall>st'. (\<lambda>a b. crawl_step lib quicOnly a b \<and> count (cr_conns b) (ai_id ai) \<le> count (cr_conns a) (ai_id ai))\<^sup>*\<^sup>* st st' \<longrightarrow>
        ai_id ai \<notin> cw_seen (cr_writer st')) \<and>
     ai_id ai \<in> cw_seen (WriteConnected (cr_writer st) (ai_id ai))"
proof -
  let ?p = "ai_id ai" and ?e = "en_String n" and ?i = "crawl_init name old"
  let ?s1 = "?i\<lparr>cr_loops := (cr_loops ?i)(0 := LoopHasPeer ai ?e)\<rparr>"
  let ?s2 = "?s1\<lparr>cr_conns := add_mset ?p (cr_conns ?s1), cr_notes := add_mset ?p (cr_notes ?s1)\<rparr>"
  let ?s3 = "?s2\<lparr>cr_notes := cr_notes ?s2 - {#?p#}, cr_writer := WriteConnected (cr_writer ?s2) ?p\<rparr>"
  let ?s4 = "?s3\<lparr>cr_loops := (cr_loops ?s3)(0 := if HasPeer (cr_writer ?s3) ?p then LoopNext else LoopRegister ai ?e)\<rparr>"
  let ?s5 = "?s4\<lparr>cr_writer := RegisterENR (cr_writer ?s4) ?p ?e, cr_loops := (cr_loops ?s4)(0 := LoopRoute ai)\<rparr>"
  have w: "WriteConnected (newCrawlFileWriter old) ?p = newCrawlFileWriter old" "\<not> HasPeer (newCrawlFileWriter old) ?p"
    by (simp_all add: WriteConnected_def newCrawlFileWriter_def HasPeer_def)
  have 1: "crawl_step lib quicOnly ?i ?s1" by (rule crawl_step.node) (simp_all add: crawl_init_def assms)
  have 2: "crawl_step lib quicOnly ?s1 ?s2" by (rule crawl_step.inbound)
  have 3: "crawl_step lib quicOnly ?s2 ?s3" by (rule crawl_step.notify) simp
  have 4: "crawl_step lib quicOnly ?s3 ?s4" by (rule crawl_step.has_peer) simp
  have 5: "crawl_step lib quicOnly ?s4 ?s5" by (rule crawl_step.register) (simp add: crawl_init_def w)
  have reach: "crawl_reach lib quicOnly ?i ?s5"
    by (rule crawl_reach.step [OF crawl_reach.step [OF crawl_reach.step [OF crawl_reach.step [OF crawl_reach.step
          [OF crawl_reach.start 1] 2] 3] 4] 5])
  have ok: "pf_ok (cr_pf ?s5, cr_reg ?s5)"
    using crawl_reach_inv [OF reach crawl_init_inv] by (simp add: crawl_inv_def)
  then obtain pf' r' where rt: "pf_route (cr_pf ?s5, cr_reg ?s5) ai = Inr (pf', r')"
    using pfr.route_total [of "(cr_pf ?s5, cr_reg ?s5)" ai] by auto
  let ?s6 = "?s5\<lparr>cr_pf := pf', cr_reg := r', cr_loops := (cr_loops ?s5)(0 := LoopNext)\<rparr>"
  have 6: "crawl_step lib quicOnly ?s5 ?s6"
    by (rule crawl_step.route [where ai = ai]) (use rt in \<open>simp_all add: pf_route_def\<close>)
  have "?p \<in> known_peers pf'" using pfr.route_known [OF ok rt] by simp
  moreover have "?p \<in># cr_conns ?s6" "?p \<notin># cr_notes ?s6" "?p \<notin> cw_seen (cr_writer ?s6)"
    "cw_pending (cr_writer ?s6) ?p = Some ?e"
    by (simp_all add: crawl_init_def w RegisterENR_def) (simp_all add: newCrawlFileWriter_def)
  moreover from this(4) have "?p \<in> cw_seen (WriteConnected (cr_writer ?s6) ?p)" by (simp add: WriteConnected_seen HasPeer_def)
  ultimately show ?thesis
    using crawl_reach.step [OF reach 6] unnotified_stays_unrecorded [of lib quicOnly ?p ?s6]
    by (intro exI [of _ ?s6]) simp
qed

theorem crawl_race_misses_connected_peer_witness:
  "\<exists>st. crawl_reach demo_lib True (crawl_init ''a'' []) st \<and> ''p'' \<in># cr_conns st \<and>
     cw_pending (cr_writer st) ''p'' = Some ''enr:demo''"
proof -
  obtain ai where ai: "node_candidate demo_lib True demo_node = Some ai" "ai_id ai = ''p''"
    using demo_node_candidate by blast
  have "en_String demo_node = ''enr:demo''" by (simp add: demo_node_def)
  with crawl_race_misses_connected_peer [OF ai(1), of "''a''" "[]"] ai(2) show ?thesis by auto
qed

end
