(* ===== verification/Bootstrap_Loop.thy ===== *)
theory Bootstrap_Loop
  imports Discovery
begin

text \<open>
  Step 8 of \<^verbatim>\<open>runProbe\<close> in \<^verbatim>\<open>main.go\<close>: the goroutine that reads the bootstrap file and routes its peers, again
  every 60 seconds, until the context is done.  Between two rounds the file, the records the peers
  return and the connections of the hosts may have changed.
\<close>

section \<open>The loop\<close>

text \<open>
  One round: the text of the file (\<open>None\<close> if it cannot be read), the connections of the hosts, what
  \<^verbatim>\<open>RequestENR\<close> returns, the draws of the shuffle, and whether the context is done at each line and at
  the \<^verbatim>\<open>select\<close> after the round.
\<close>

record boot_round =
  br_text :: "string option"
  br_hosts :: "(string \<times> host_net) list"
  br_request :: "enode \<Rightarrow> enode option"
  br_rnd :: "nat \<Rightarrow> nat"
  br_ctx :: "nat \<Rightarrow> bool"
  br_done :: bool

definition bootstrap_interval :: duration where
  "bootstrap_interval = 60 * Second"

fun bootstrap_rounds ::
  "enode_lib \<Rightarrow> (string \<Rightarrow> enode option) \<Rightarrow> bytes \<Rightarrow> u64 list \<Rightarrow> bool \<Rightarrow> PeerFinder \<times> SharedPeerSet \<Rightarrow> boot_round list \<Rightarrow> (PeerFinder \<times> SharedPeerSet) res" where
  "bootstrap_rounds lib parse fd subnets quicOnly r [] = Inr r"
| "bootstrap_rounds lib parse fd subnets quicOnly r (rd # rds) =
     res_bind (RouteBootstrapPeers pf_route pf_conn lib parse (br_request rd) (br_text rd) fd subnets quicOnly (br_rnd rd) (br_ctx rd)
         ((fst r)\<lparr>hosts := br_hosts rd\<rparr>, snd r))
       (\<lambda>r'. if br_done rd then Inr r' else bootstrap_rounds lib parse fd subnets quicOnly r' rds)"

section \<open>What it routes\<close>

definition round_peers :: "enode_lib \<Rightarrow> (string \<Rightarrow> enode option) \<Rightarrow> bytes \<Rightarrow> u64 list \<Rightarrow> bool \<Rightarrow> boot_round \<Rightarrow> peer_id set" where
  "round_peers lib parse fd subnets quicOnly rd =
     {p. \<not> connected_any (br_hosts rd) p \<and>
         (\<exists>txt. br_text rd = Some txt \<and>
           (\<exists>line \<in> set (bootstrap_lines txt).
              map_option ai_id (boot_candidate lib parse (br_request rd) fd subnets quicOnly line) = Some p))}"

lemma hosts_irrelevant [simp]:
  "pf_ok (pf\<lparr>hosts := hs\<rparr>, s) = pf_ok (pf, s)" "known_peers (pf\<lparr>hosts := hs\<rparr>) = known_peers pf"
  by (simp_all add: pf_ok_def pf_inv_def pf_covers_def known_peers_def lookup_peer_def)

lemma round_ok:
  assumes "pf_ok r" and "\<forall>i. \<not> br_ctx rd i"
  obtains r' where "RouteBootstrapPeers pf_route pf_conn lib parse (br_request rd) (br_text rd) fd subnets quicOnly (br_rnd rd) (br_ctx rd)
      ((fst r)\<lparr>hosts := br_hosts rd\<rparr>, snd r) = Inr r'"
    and "pf_ok r'" and "known_peers (fst r') = known_peers (fst r) \<union> round_peers lib parse fd subnets quicOnly rd"
proof (cases "br_text rd")
  case None
  with assms(1) show thesis
    by (intro that [of "((fst r)\<lparr>hosts := br_hosts rd\<rparr>, snd r)"]) (simp_all add: RouteBootstrapPeers_def round_peers_def)
next
  case (Some content)
  let ?r = "((fst r)\<lparr>hosts := br_hosts rd\<rparr>, snd r)"
  have "pf_ok ?r" using assms(1) by simp
  then obtain r' where "bootstrap_loop pf_route pf_conn lib parse (br_request rd) fd subnets quicOnly (br_ctx rd) 0 ?r
      (go_shuffle (br_rnd rd) (bootstrap_lines content)) = Inr r'" "pf_ok r'"
    "known_peers (fst r') = known_peers (fst ?r) \<union>
      routed_ids (boot_candidate lib parse (br_request rd) fd subnets quicOnly) (pf_conn ?r) (go_shuffle (br_rnd rd) (bootstrap_lines content))"
    using pfr.bootstrap_loop_ok [of ?r "br_ctx rd" lib parse "br_request rd" fd subnets quicOnly 0
      "go_shuffle (br_rnd rd) (bootstrap_lines content)"] assms(2) by metis
  with Some show thesis
    by (intro that [of r']) (simp_all add: RouteBootstrapPeers_def routed_ids_def pf_conn_def round_peers_def IsConnectedToAny_def)
qed

text \<open>
  C26: the bootstrap goroutine routes every candidate of every round.  However many rounds it runs while
  the context lives, it never panics, and afterwards the finder knows exactly the peers it knew
  before and, for each round, the candidates of the file as it was then, with their refreshed
  records, that no instance was connected to; a file that cannot be read adds nothing and does not
  stop the loop.
\<close>

theorem bootstrap_rounds_route_candidates:
  assumes "pf_ok r" and "\<forall>rd \<in> set rds. (\<forall>i. \<not> br_ctx rd i) \<and> \<not> br_done rd"
  shows "\<exists>r'. bootstrap_rounds lib parse fd subnets quicOnly r rds = Inr r' \<and> pf_ok r' \<and>
     known_peers (fst r') = known_peers (fst r) \<union>
       (\<Union>rd \<in> set rds. {p. \<not> connected_any (br_hosts rd) p \<and>
          (\<exists>txt. br_text rd = Some txt \<and>
            (\<exists>line \<in> set (bootstrap_lines txt).
               map_option ai_id (boot_candidate lib parse (br_request rd) fd subnets quicOnly line) = Some p))})"
  unfolding round_peers_def [symmetric]
  using assms
proof (induction rds arbitrary: r)
  case (Cons rd rds)
  from Cons.prems have "\<forall>i. \<not> br_ctx rd i" "\<not> br_done rd" by simp_all
  from round_ok [OF Cons.prems(1) this(1)] obtain r1
    where 1: "RouteBootstrapPeers pf_route pf_conn lib parse (br_request rd) (br_text rd) fd subnets quicOnly (br_rnd rd) (br_ctx rd)
      ((fst r)\<lparr>hosts := br_hosts rd\<rparr>, snd r) = Inr r1"
    and "pf_ok r1" "known_peers (fst r1) = known_peers (fst r) \<union> round_peers lib parse fd subnets quicOnly rd" by metis
  with Cons.IH [of r1] Cons.prems(2) \<open>\<not> br_done rd\<close> show ?case by (auto simp: Un_assoc)
qed simp

definition demo_round :: "string option \<Rightarrow> boot_round" where
  "demo_round txt = \<lparr>br_text = txt, br_hosts = [(''a'', idle_host)], br_request = (\<lambda>_. None), br_rnd = (\<lambda>_. 0), br_ctx = (\<lambda>_. False), br_done = False\<rparr>"

theorem bootstrap_rounds_route_candidates_witness:
  "\<exists>r'. bootstrap_rounds demo_lib (\<lambda>l. if l = ''enr:demo'' then Some demo_node else None) [1, 2, 3, 4] [9] True (demo_pf, demo_sps)
       [demo_round None, demo_round (Some ''enr:demo'')] = Inr r' \<and> known_peers (fst r') = {''p''}"
proof -
  have lines: "bootstrap_lines ''enr:demo'' = [''enr:demo'']"
    by (simp add: bootstrap_lines_def scan_lines.simps drop_cr_def str_TrimSpace_def is_space_def)
  have idle: "\<not> connected_any [(''a'', idle_host)] p" for p by (simp add: host_connected_def idle_host_def)
  have "\<forall>rd \<in> set [demo_round None, demo_round (Some ''enr:demo'')]. (\<forall>i. \<not> br_ctx rd i) \<and> \<not> br_done rd"
    by (simp add: demo_round_def)
  moreover obtain z where "node_candidate demo_lib True demo_node = Some z" "ai_id z = ''p''"
    using demo_node_passes(3) by blast
  ultimately show ?thesis
    using bootstrap_rounds_route_candidates [OF demo_pf_ok, of "[demo_round None, demo_round (Some ''enr:demo'')]" demo_lib
      "\<lambda>l. if l = ''enr:demo'' then Some demo_node else None" "[1, 2, 3, 4]" "[9]" True]
    by (auto simp: demo_pf_start lines boot_candidate_def demo_node_passes demo_round_def idle simp del: connected_any.simps bootstrap_rounds.simps)
qed

end
