(* ===== verification/Rpc_Session.thy ===== *)
theory Rpc_Session
  imports Rpc
begin

text \<open>
  The two sides of the request protocols together: a host with its registered handlers and its
  connection callback, the serving of one stream, and the status handshake one probe makes with
  another.  Which protocol a stream is opened with is up to libp2p and an argument; a read that
  meets the stream deadline of ten seconds is one that gets fewer bytes.
\<close>

section \<open>A host's side\<close>

definition streamTimeout :: duration where
  "streamTimeout = 10 * Second"

text \<open>The stream handlers, and how many connection callbacks that send a status are registered.\<close>

record rpc_host =
  rh_handlers :: "string \<rightharpoonup> handler"
  rh_statusCallbacks :: nat

definition SendStatusOnConnect :: "rpc_host \<Rightarrow> rpc_host" where
  "SendStatusOnConnect h = h\<lparr>rh_statusCallbacks := rh_statusCallbacks h + 1\<rparr>"

text \<open>The peers to which a connection to \<open>p\<close> makes the host send a status.\<close>

definition on_connected :: "rpc_host \<Rightarrow> peer_id \<Rightarrow> peer_id list" where
  "on_connected h p = replicate (rh_statusCallbacks h) p"

text \<open>What \<^verbatim>\<open>runCrawl\<close> and \<^verbatim>\<open>runProbe\<close> do with a new host.\<close>

definition setup_rpc :: "rpc_host \<Rightarrow> rpc_host" where
  "setup_rpc h = SendStatusOnConnect (h\<lparr>rh_handlers := RegisterHandlers (rh_handlers h)\<rparr>)"

section \<open>Streams\<close>

text \<open>
  Serving a stream: the handler of its protocol reads the request and writes the answer, with the
  outcomes \<open>f1\<close> and \<open>f2\<close> of its writes; the stream is then closed.
\<close>

definition serve_stream ::
  "rpc_lib \<Rightarrow> rpc_host \<Rightarrow> StatusV2 \<Rightarrow> bytes \<Rightarrow> string \<Rightarrow> nat option \<Rightarrow> nat option \<Rightarrow> bytes \<Rightarrow> bytes" where
  "serve_stream lib h status attnets proto f1 f2 req =
     (case rh_handlers h proto of
        None \<Rightarrow> []
      | Some HStatus \<Rightarrow> handleStatus lib req f1 f2 status
      | Some HPing \<Rightarrow> handlePing lib req f1 f2
      | Some HMetadata \<Rightarrow> handleMetadata lib proto attnets f1 f2
      | Some HGoodbye \<Rightarrow> [])"

text \<open>
  One probe's \<^verbatim>\<open>sendStatus\<close> against another host's handlers.  \<open>new_stream\<close> is what \<^verbatim>\<open>NewStream\<close> makes of the
  protocols it is offered: the one the stream is opened with, or a failure.
\<close>

definition handshake ::
  "rpc_lib \<Rightarrow> (string list \<Rightarrow> string option) \<Rightarrow> nat option \<Rightarrow> bool \<Rightarrow> rpc_host \<Rightarrow> bytes \<Rightarrow> nat option \<Rightarrow> nat option
     \<Rightarrow> StatusV2 \<Rightarrow> StatusV2 \<Rightarrow> send_outcome" where
  "handshake lib new_stream f closes remote attnets f1 f2 theirs ours =
     (case new_stream [statusProtocolV2, statusProtocolV1] of
        None \<Rightarrow> snd (sendStatus lib False f closes (\<lambda>_. []) ours)
      | Some proto \<Rightarrow> snd (sendStatus lib True f closes (serve_stream lib remote theirs attnets proto f1 f2) ours))"

section \<open>Properties\<close>

text \<open>SSZ encodes a status only if its digest and its roots have their fixed sizes.\<close>

definition status_ok :: "StatusV2 \<Rightarrow> bool" where
  "status_ok s \<longleftrightarrow> length (ForkDigest s) = 4 \<and> length (FinalizedRoot s) = 32 \<and> length (HeadRoot s) = 32"

lemma MakeStatusProvider_ok: "length fd = 4 \<Longrightarrow> status_ok (MakeStatusProvider current_slot fd genesis now)"
  by (simp add: status_ok_def MakeStatusProvider_def Let_def)

text \<open>
  C28: the status handshake.  A probe that connects to a host sends it one status.  If status messages
  with fields of the right sizes survive the encoding and the stream is opened with one of the two protocols offered, the handshake with a host
  set up like the probe itself completes, when no write fails, with the head slot the other side
  advertises, one less than its current slot.  And with whatever peer: a handshake is reported complete only if
  our whole status was sent and the answer is the success code followed by a status, whose head slot is
  reported; an answer with another code is reported as that code.
\<close>

theorem status_handshake:
  assumes "\<And>s. status_ok s \<Longrightarrow> \<exists>b. rl_encStatus lib s = Some b \<and> rl_decStatus lib b = Some s"
    and "new_stream [statusProtocolV2, statusProtocolV1] = Some proto" and "proto \<in> {statusProtocolV2, statusProtocolV1}"
    and "length fd = 4" and "theirs = MakeStatusProvider current_slot fd genesis now"
    and "length fd' = 4" and "ours = MakeStatusProvider current_slot fd' genesis now'"
  shows "on_connected (setup_rpc \<lparr>rh_handlers = Map.empty, rh_statusCallbacks = 0\<rparr>) p = [p] \<and>
     handshake lib new_stream None True (setup_rpc h) attnets None None theirs ours = Handshake (HeadSlot theirs) \<and>
     unat (HeadSlot theirs) = unat (current_slot genesis now) - 1 \<and>
     (\<forall>opens f closes peer hs. snd (sendStatus lib opens f closes peer ours) = Handshake hs \<longrightarrow>
        (\<exists>b rest st. fst (sendStatus lib opens f closes peer ours) = b \<and> rl_decStatus lib b = Some ours \<and>
           peer b = 0 # rest \<and> rl_decStatus lib rest = Some st \<and> hs = HeadSlot st)) \<and>
     (\<forall>peer code rest. (\<forall>b. peer b = code # rest) \<longrightarrow> code \<noteq> 0 \<longrightarrow>
        snd (sendStatus lib True None True peer ours) = NonSuccess code)"
proof -
  obtain bo where bo: "rl_encStatus lib ours = Some bo" "rl_decStatus lib bo = Some ours"
    using assms(1) MakeStatusProvider_ok assms(6,7) by blast
  obtain bt where bt: "rl_encStatus lib theirs = Some bt" "rl_decStatus lib bt = Some theirs"
    using assms(1) MakeStatusProvider_ok assms(4,5) by blast
  have "rh_handlers (setup_rpc h) proto = Some HStatus"
    using assms(3) by (auto simp: setup_rpc_def SendStatusOnConnect_def RegisterHandlers_def protocol_defs)
  then have "serve_stream lib (setup_rpc h) theirs attnets proto None None bo = 0 # bt"
    using bo bt by (simp add: serve_stream_def handleStatus_def write_response_def responseCodeSuccess_def)
  then have "handshake lib new_stream None True (setup_rpc h) attnets None None theirs ours = Handshake (HeadSlot theirs)"
    using assms(2) bo bt by (simp add: handshake_def sendStatus_handshake_iff)
  moreover have "unat (HeadSlot theirs) = unat (current_slot genesis now) - 1"
    unfolding assms(5) by (rule MakeStatusProvider_head)
  moreover have "\<exists>b rest st. fst (sendStatus lib opens f closes peer ours) = b \<and> rl_decStatus lib b = Some ours \<and>
           peer b = 0 # rest \<and> rl_decStatus lib rest = Some st \<and> hs = HeadSlot st"
    if "snd (sendStatus lib opens f closes peer ours) = Handshake hs" for opens f closes peer hs
  proof -
    from that bo(1) have s: "opens" "closes" "f = None"
      and "\<exists>rest st. peer bo = 0 # rest \<and> rl_decStatus lib rest = Some st \<and> hs = HeadSlot st"
      by (auto simp: sendStatus_handshake_iff)
    moreover from this(4) s bo(1) have "fst (sendStatus lib opens f closes peer ours) = bo"
      by (auto simp: sendStatus_def responseCodeSuccess_def)
    ultimately show ?thesis using bo(2) by auto
  qed
  moreover have "snd (sendStatus lib True None True peer ours) = NonSuccess code"
    if "\<forall>b. peer b = code # rest" "code \<noteq> 0" for peer code rest
    using that bo(1) by (simp add: sendStatus_def responseCodeSuccess_def)
  moreover have "on_connected (setup_rpc \<lparr>rh_handlers = Map.empty, rh_statusCallbacks = 0\<rparr>) p = [p]"
    by (simp add: on_connected_def setup_rpc_def SendStatusOnConnect_def)
  ultimately show ?thesis by blast
qed

text \<open>A library with the fixed-size SSZ layout of a status, without the compression.\<close>

fun le_bytes :: "nat \<Rightarrow> nat \<Rightarrow> bytes" where
  "le_bytes 0 n = []"
| "le_bytes (Suc k) n = of_nat (n mod 256) # le_bytes k (n div 256)"

fun le_nat :: "bytes \<Rightarrow> nat" where
  "le_nat [] = 0"
| "le_nat (b # bs) = unat b + 256 * le_nat bs"

lemma le_nat_le_bytes: "n < 256 ^ k \<Longrightarrow> le_nat (le_bytes k n) = n"
proof (induction k arbitrary: n)
  case (Suc k)
  have "unat (of_nat (n mod 256) :: u8) = n mod 256" by (simp add: unat_of_nat take_bit_eq_mod)
  moreover have "n div 256 < 256 ^ k" using Suc.prems by (simp add: less_mult_imp_div_less mult.commute)
  ultimately show ?case using Suc.IH by simp
qed simp

lemma length_le_bytes [simp]: "length (le_bytes k n) = k"
  by (induction k arbitrary: n) simp_all

lemma le_word: "of_nat (le_nat (le_bytes 8 (unat (w :: u64)))) = w"
proof -
  have "unat w < 256 ^ 8" using unsigned_less [of w] by simp
  then show ?thesis by (simp add: le_nat_le_bytes)
qed

definition demo_rpc_lib :: rpc_lib where
  "demo_rpc_lib = \<lparr>
     rl_encStatus = (\<lambda>s. if status_ok s then Some (ForkDigest s @ FinalizedRoot s @ le_bytes 8 (unat (FinalizedEpoch s)) @ HeadRoot s @
        le_bytes 8 (unat (HeadSlot s)) @ le_bytes 8 (unat (EarliestAvailableSlot s))) else None),
     rl_encSeq = (\<lambda>n. Some (le_bytes 8 (unat n))),
     rl_encMeta = (\<lambda>md. None),
     rl_decStatus = (\<lambda>b. if length b = 92
        then Some \<lparr>ForkDigest = take 4 b, FinalizedRoot = take 32 (drop 4 b), FinalizedEpoch = of_nat (le_nat (take 8 (drop 36 b))),
          HeadRoot = take 32 (drop 44 b), HeadSlot = of_nat (le_nat (take 8 (drop 76 b))),
          EarliestAvailableSlot = of_nat (le_nat (take 8 (drop 84 b)))\<rparr>
        else None),
     rl_decSeq = (\<lambda>b. if length b = 8 then Some (of_nat (le_nat b)) else None)\<rparr>"

lemma demo_rpc_lib: "status_ok s \<Longrightarrow> \<exists>b. rl_encStatus demo_rpc_lib s = Some b \<and> rl_decStatus demo_rpc_lib b = Some s"
  by (auto simp: demo_rpc_lib_def status_ok_def le_word)

theorem status_handshake_witness:
  "handshake demo_rpc_lib (\<lambda>ps. Some (hd ps)) None True (setup_rpc \<lparr>rh_handlers = Map.empty, rh_statusCallbacks = 0\<rparr>) [1] None None
     (MakeStatusProvider (\<lambda>g t. of_int t) [1, 2, 3, 4] 0 5) (MakeStatusProvider (\<lambda>g t. of_int t) [1, 2, 3, 4] 0 9) = Handshake 4"
proof -
  have "HeadSlot (MakeStatusProvider (\<lambda>g t. of_int t) [1, 2, 3, 4] 0 5) = 4" by (simp add: MakeStatusProvider_def)
  with status_handshake [OF demo_rpc_lib _ _ _ refl _ refl, where new_stream = "\<lambda>ps. Some (hd ps)" and proto = statusProtocolV2
      and current_slot = "\<lambda>g t. of_int t" and fd = "[1, 2, 3, 4]" and fd' = "[1, 2, 3, 4]" and genesis = 0 and now = 5 and now' = 9
      and h = "\<lparr>rh_handlers = Map.empty, rh_statusCallbacks = 0\<rparr>" and attnets = "[1]"]
  show ?thesis by simp
qed

end
