(* ===== verification/Log_Time.thy ===== *)
theory Log_Time
  imports Go_Prelude
begin

text \<open>
  \<^verbatim>\<open>replaceTimeAttr\<close> of \<^verbatim>\<open>main.go\<close>: the time of a log line is written with microseconds and the zone, in the
  layout \<^verbatim>\<open>2006-01-02T15:04:05.000000Z07:00\<close>.  \<^verbatim>\<open>Time.Format\<close> is the standard library's: the civil date of
  an instant is found by 400-, 100-, 4- and 1-year cycles from the first of January of year 1, as
  \<^verbatim>\<open>time\<close> does.
\<close>

section \<open>Civil dates\<close>

definition is_leap :: "int \<Rightarrow> bool" where
  "is_leap y \<longleftrightarrow> 4 dvd y \<and> (\<not> 100 dvd y \<or> 400 dvd y)"

definition month_lengths :: "int \<Rightarrow> int list" where
  "month_lengths y = [31, if is_leap y then 29 else 28, 31, 30, 31, 30, 31, 31, 30, 31, 30, 31]"

text \<open>The year, and the day in it from zero, of a number of days since the first of January of year 1.\<close>

definition year_of_days :: "int \<Rightarrow> int \<times> int" where
  "year_of_days days =
     (let n400 = days div 146097; d = days mod 146097;
          n100 = min 3 (d div 36524); d = d - 36524 * n100;
          n4 = d div 1461; d = d - 1461 * n4;
          n1 = min 3 (d div 365); d = d - 365 * n1
      in (400 * n400 + 100 * n100 + 4 * n4 + n1 + 1, d))"

fun month_day :: "int list \<Rightarrow> int \<Rightarrow> int \<times> int" where
  "month_day [] d = (1, d + 1)"
| "month_day (l # ls) d = (if d < l then (1, d + 1) else (case month_day ls (d - l) of (m, x) \<Rightarrow> (m + 1, x)))"

definition civil_of_days :: "int \<Rightarrow> int \<times> int \<times> int" where
  "civil_of_days days = (case year_of_days days of (y, d) \<Rightarrow> (y, month_day (month_lengths y) d))"

definition days_before_year :: "int \<Rightarrow> int" where
  "days_before_year y = 365 * (y - 1) + (y - 1) div 4 - (y - 1) div 100 + (y - 1) div 400"

definition days_of_civil :: "int \<times> int \<times> int \<Rightarrow> int" where
  "days_of_civil c = (case c of (y, m, d) \<Rightarrow>
     days_before_year y + sum_list (take (nat (m - 1)) (month_lengths y)) + d - 1)"

lemma year_of_days:
  assumes "year_of_days days = (y, d)"
  shows "days_before_year y + d = days" and "0 \<le> d" and "d < 365 \<or> is_leap y \<and> d = 365"
proof -
  define a r where "a = days div 146097" and "r = days mod 146097"
  define b r1 where "b = min 3 (r div 36524)" and "r1 = r - 36524 * b"
  define c r2 where "c = r1 div 1461" and "r2 = r1 - 1461 * c"
  define e where "e = min 3 (r2 div 365)"
  have y: "y = 400 * a + 100 * b + 4 * c + e + 1" and d: "d = r2 - 365 * e"
    using assms by (simp_all only: year_of_days_def Let_def prod.inject a_def [symmetric] r_def [symmetric] b_def [symmetric]
        r1_def [symmetric] c_def [symmetric] r2_def [symmetric] e_def [symmetric])
  have r: "0 \<le> r" "r < 146097" "days = 146097 * a + r" by (simp_all add: r_def a_def)
  have b: "0 \<le> b" "b \<le> 3" "0 \<le> r1" "r1 < 36524 \<or> b = 3 \<and> r1 = 36524" using r by (auto simp: b_def r1_def min_def)
  have c: "0 \<le> c" "c \<le> 24" "0 \<le> r2" "r2 < 1461" "r1 = 1461 * c + r2" using b by (auto simp: c_def r2_def)
  have e: "0 \<le> e" "e \<le> 3" "0 \<le> d" "d < 365 \<or> e = 3 \<and> r2 = 1460" using c by (auto simp: e_def d min_def)
  have "(y - 1) div 4 = 100 * a + 25 * b + c" "(y - 1) div 100 = 4 * a + b" "(y - 1) div 400 = a"
    using y b(1,2) c(1,2) e(1,2) by simp_all
  then show "days_before_year y + d = days"
    using y d r(3) c(5) r1_def by (simp add: days_before_year_def)
  show "0 \<le> d" by (rule e(3))
  show "d < 365 \<or> is_leap y \<and> d = 365"
  proof (cases "d < 365")
    case False
    with e have e3: "e = 3" "r2 = 1460" "d = 365" using d by auto
    have "y = 4 * (100 * a + 25 * b + c + 1)" using y e3 by simp
    moreover have "b = 3" if "c = 24" using that c(5) e3(2) b by auto
    moreover have "\<not> 100 dvd 4 * (100 * a + 25 * b + c + 1)" if "c \<noteq> 24"
    proof -
      have "4 * (100 * a + 25 * b + c + 1) = (4 * c + 4) + 100 * (4 * a + b)" by simp
      then have "4 * (100 * a + 25 * b + c + 1) mod 100 = (4 * c + 4) mod 100" by (simp only: mod_mult_self2)
      also have "\<dots> = 4 * c + 4" using that c(1,2) by (intro mod_pos_pos_trivial) auto
      finally show ?thesis using c(1) by (simp only: dvd_eq_mod_eq_0)
    qed
    ultimately have "is_leap y"
      using b(1,2) c(1,2) by (cases "c = 24") (auto simp: is_leap_def)
    with e3 show ?thesis by simp
  qed simp
qed

lemma month_day:
  assumes "0 \<le> d" and "d < sum_list ls" and "month_day ls d = (m, x)" and "\<forall>l \<in> set ls. l \<le> 31"
  shows "1 \<le> m \<and> m \<le> int (length ls) \<and> 1 \<le> x \<and> x \<le> 31 \<and> sum_list (take (nat (m - 1)) ls) + x - 1 = d"
  using assms
proof (induction ls arbitrary: d m x)
  case (Cons l ls)
  show ?case
  proof (cases "d < l")
    case True
    with Cons.prems show ?thesis by auto
  next
    case False
    obtain m' x' where md: "month_day ls (d - l) = (m', x')" by fastforce
    with False Cons.prems have mx: "m = m' + 1" "x = x'" by auto
    from False Cons.prems md have IH: "1 \<le> m' \<and> m' \<le> int (length ls) \<and> 1 \<le> x' \<and> x' \<le> 31 \<and> sum_list (take (nat (m' - 1)) ls) + x' - 1 = d - l"
      by (intro Cons.IH) auto
    then have "nat (m - 1) = Suc (nat (m' - 1))" using mx by auto
    with IH mx show ?thesis by auto
  qed
qed simp

lemma civil_of_days:
  assumes "civil_of_days days = (y, m, d)"
  shows "days_of_civil (y, m, d) = days" and "1 \<le> m \<and> m \<le> 12" and "1 \<le> d \<and> d \<le> 31"
proof -
  obtain yd where yd: "year_of_days days = (y, yd)" and md: "month_day (month_lengths y) yd = (m, d)"
    using assms by (auto simp: civil_of_days_def split: prod.splits)
  note yr = year_of_days [OF yd]
  have "yd < sum_list (month_lengths y)" using yr(3) by (auto simp: month_lengths_def)
  from month_day [OF yr(2) this md] have
    "1 \<le> m \<and> m \<le> int (length (month_lengths y)) \<and> 1 \<le> d \<and> d \<le> 31 \<and> sum_list (take (nat (m - 1)) (month_lengths y)) + d - 1 = yd"
    by (auto simp: month_lengths_def)
  moreover have "length (month_lengths y) = 12" by (simp add: month_lengths_def)
  ultimately show "days_of_civil (y, m, d) = days" and "1 \<le> m \<and> m \<le> 12" and "1 \<le> d \<and> d \<le> 31"
    using yr(1) by (auto simp: days_of_civil_def)
qed

section \<open>The layout\<close>

text \<open>A number in at least \<open>k\<close> digits.\<close>

definition pad :: "nat \<Rightarrow> nat \<Rightarrow> string" where
  "pad k n = replicate (k - length (dec_nat n)) CHR ''0'' @ dec_nat n"

lemma length_dec_nat: "n < 10 ^ k \<Longrightarrow> 0 < k \<Longrightarrow> length (dec_nat n) \<le> k"
proof (induction k arbitrary: n)
  case (Suc k)
  show ?case
  proof (cases "n < 10")
    case True
    then show ?thesis by (subst dec_nat.simps) simp
  next
    case False
    then have "0 < k" using Suc.prems by (cases k) auto
    moreover have "n div 10 < 10 ^ k" using Suc.prems by (simp add: less_mult_imp_div_less mult.commute)
    ultimately have "length (dec_nat (n div 10)) \<le> k" by (intro Suc.IH)
    with False show ?thesis by (subst dec_nat.simps) simp
  qed
qed simp

lemma length_pad: "n < 10 ^ k \<Longrightarrow> 0 < k \<Longrightarrow> length (pad k n) = k"
  using length_dec_nat [of n k] by (simp add: pad_def)

lemma length_pad_int: "z < 10 ^ k \<Longrightarrow> 0 < k \<Longrightarrow> length (pad k (nat z)) = k"
  by (rule length_pad) (auto simp: nat_less_iff)

lemma read_dec_pad: "read_dec (pad k n) = n"
proof -
  have "foldl (\<lambda>n c. 10 * n + read_digit c) 0 (replicate j CHR ''0'') = 0" for j
    by (induction j) simp_all
  then have "read_dec (replicate j CHR ''0'' @ s) = read_dec s" for j s by (simp add: read_dec_def)
  then show ?thesis by (simp add: pad_def)
qed

definition zone_suffix :: "int \<Rightarrow> string" where
  "zone_suffix off =
     (if off = 0 then ''Z''
      else let z = go_div off 60; a = nat \<bar>z\<bar>
           in (if z < 0 then ''-'' else ''+'') @ pad 2 (a div 60) @ '':'' @ pad 2 (a mod 60))"

text \<open>\<^verbatim>\<open>Time.Format\<close> of an instant in a zone \<open>off\<close> seconds east of UTC.\<close>

definition epoch_days :: int where
  "epoch_days = 719162"

definition Format :: "int \<Rightarrow> time \<Rightarrow> string" where
  "Format off t =
     (let secs = t div Second + off;
          micros = (t mod Second) div 1000;
          sod = secs mod 86400
      in case civil_of_days (secs div 86400 + epoch_days) of (y, m, d) \<Rightarrow>
           (if y < 0 then ''-'' else '''') @ pad 4 (nat \<bar>y\<bar>) @ ''-'' @ pad 2 (nat m) @ ''-'' @ pad 2 (nat d) @ ''T'' @
           pad 2 (nat (sod div 3600)) @ '':'' @ pad 2 (nat (sod mod 3600 div 60)) @ '':'' @ pad 2 (nat (sod mod 60)) @ ''.'' @
           pad 6 (nat micros) @ zone_suffix off)"

section \<open>The attribute\<close>

datatype attr_value = StringValue string | TimeValue int time | OtherValue

record slog_attr =
  a_Key :: string
  a_Value :: attr_value

text \<open>\<^verbatim>\<open>Value.Time\<close> panics unless the value is a time.\<close>

definition replaceTimeAttr :: "string list \<Rightarrow> slog_attr \<Rightarrow> slog_attr res" where
  "replaceTimeAttr groups a =
     (if a_Key a = ''time''
      then (case a_Value a of
              TimeValue off t \<Rightarrow> Inr (a\<lparr>a_Value := StringValue (Format off t)\<rparr>)
            | _ \<Rightarrow> Inl (ExplicitPanic ''Value kind is not Time''))
      else Inr a)"

section \<open>Reading a timestamp back\<close>

definition read_zone :: "string \<Rightarrow> int" where
  "read_zone z =
     (if z = ''Z'' then 0
      else (if hd z = CHR ''-'' then - 1 else 1) * (60 * (60 * int (read_dec (take 2 (drop 1 z))) + int (read_dec (take 2 (drop 4 z))))))"

definition read_stamp :: "string \<Rightarrow> time" where
  "read_stamp s =
     (let f = (\<lambda>k i. int (read_dec (take k (drop i s))));
          days = days_of_civil (f 4 0, f 2 5, f 2 8) - epoch_days;
          secs = 86400 * days + 3600 * f 2 11 + 60 * f 2 14 + f 2 17
      in (secs - read_zone (drop 26 s)) * Second + 1000 * f 6 20)"

lemma read_zone_suffix:
  assumes "60 dvd off" and "\<bar>off\<bar> < 360000"
  shows "read_zone (zone_suffix off) = off"
proof (cases "off = 0")
  case True
  then show ?thesis by (simp add: read_zone_def zone_suffix_def)
next
  case False
  let ?a = "nat \<bar>go_div off 60\<bar>"
  from assms(1) obtain k where k: "off = 60 * k" by blast
  have z: "go_div off 60 = k" by (simp add: k go_div_def abs_mult sgn_mult sgn_mult_abs)
  have "?a < 6000" using assms(2) k z by auto
  then have "?a div 60 < 10 ^ 2" "?a mod 60 < 10 ^ 2" by (simp_all add: less_mult_imp_div_less order_less_trans [OF mod_less_divisor])
  then have len: "length (pad 2 (?a div 60)) = 2" "length (pad 2 (?a mod 60)) = 2" by (simp_all only: length_pad zero_less_numeral)
  have a: "60 * int (?a div 60) + int (?a mod 60) = \<bar>k\<bar>"
    by (metis z int_nat_eq abs_ge_zero mult.commute of_nat_add of_nat_mult of_nat_numeral div_mult_mod_eq)
  have "read_zone (zone_suffix off) = (if k < 0 then - 1 else 1) * (60 * (60 * int (?a div 60) + int (?a mod 60)))"
    using False len by (simp add: zone_suffix_def read_zone_def read_dec_pad z Let_def)
  with a k show ?thesis by simp
qed

lemma read_stamp_fields:
  assumes "length ys = 4" "length ms = 2" "length ds = 2" "length hs = 2" "length is = 2" "length ss = 2" "length us = 6"
  shows "read_stamp (ys @ ''-'' @ ms @ ''-'' @ ds @ ''T'' @ hs @ '':'' @ is @ '':'' @ ss @ ''.'' @ us @ z) =
     (86400 * (days_of_civil (int (read_dec ys), int (read_dec ms), int (read_dec ds)) - epoch_days) +
      3600 * int (read_dec hs) + 60 * int (read_dec is) + int (read_dec ss) - read_zone z) * Second + 1000 * int (read_dec us)"
  using assms by (simp add: read_stamp_def Let_def)

lemma read_stamp_Format:
  assumes "civil_of_days ((t div Second + off) div 86400 + epoch_days) = (y, m, d)" and "0 \<le> y" and "y \<le> 9999"
    and "60 dvd off" and "\<bar>off\<bar> < 360000"
  shows "read_stamp (Format off t) = t - t mod 1000"
proof -
  note civil = civil_of_days [OF assms(1)]
  define secs sod us where "secs = t div Second + off" and "sod = secs mod 86400" and "us = (t mod Second) div 1000"
  have sod: "0 \<le> sod" "sod < 86400" by (simp_all add: sod_def)
  have us: "0 \<le> us" "us < 1000000" by (simp_all add: us_def Second_def)
  have "sod div 3600 < 100" "sod mod 3600 div 60 < 100" "sod mod 60 < 100"
    using sod pos_mod_bound [of 3600 sod] pos_mod_bound [of 60 sod] by linarith+
  then have len: "length (pad 4 (nat \<bar>y\<bar>)) = 4" "length (pad 2 (nat m)) = 2" "length (pad 2 (nat d)) = 2"
      "length (pad 2 (nat (sod div 3600))) = 2" "length (pad 2 (nat (sod mod 3600 div 60))) = 2"
      "length (pad 2 (nat (sod mod 60))) = 2" "length (pad 6 (nat us)) = 6"
    using assms(2,3) civil(2,3) us by (simp_all add: length_pad_int)
  have fmt: "Format off t = pad 4 (nat \<bar>y\<bar>) @ ''-'' @ pad 2 (nat m) @ ''-'' @ pad 2 (nat d) @ ''T'' @
      pad 2 (nat (sod div 3600)) @ '':'' @ pad 2 (nat (sod mod 3600 div 60)) @ '':'' @ pad 2 (nat (sod mod 60)) @ ''.'' @
      pad 6 (nat us) @ zone_suffix off"
    using assms(1,2) by (simp add: Format_def Let_def secs_def sod_def us_def)
  have days: "days_of_civil (y, m, d) - epoch_days = secs div 86400" by (simp add: civil(1) secs_def)
  have "86400 * (secs div 86400) + 3600 * (sod div 3600) + 60 * (sod mod 3600 div 60) + sod mod 60 = secs"
  proof -
    have "secs = 86400 * (secs div 86400) + sod" by (simp add: sod_def)
    moreover have "sod = 3600 * (sod div 3600) + sod mod 3600" by simp
    moreover have "sod mod 3600 = 60 * (sod mod 3600 div 60) + sod mod 60" by (simp add: mod_mod_cancel flip: minus_mod_eq_mult_div)
    ultimately show ?thesis by linarith
  qed
  moreover have "(t div Second) * Second + 1000 * us = t - t mod 1000"
  proof -
    have "t = t div Second * Second + t mod Second" by simp
    moreover have "t mod Second = 1000 * us + t mod 1000"
      by (simp add: us_def Second_def mod_mod_cancel flip: minus_mod_eq_mult_div)
    ultimately show ?thesis by linarith
  qed
  moreover have "int (nat \<bar>y\<bar>) = y" "int (nat m) = m" "int (nat d) = d" "int (nat us) = us"
      "int (nat (sod div 3600)) = sod div 3600" "int (nat (sod mod 3600 div 60)) = sod mod 3600 div 60"
      "int (nat (sod mod 60)) = sod mod 60"
    using assms(2) civil(2,3) sod us by (simp_all add: pos_imp_zdiv_nonneg_iff)
  moreover have "secs - off = t div Second" by (simp add: secs_def)
  ultimately show ?thesis
    unfolding fmt read_stamp_fields [OF len] read_dec_pad by (simp only: days read_zone_suffix [OF assms(4,5)])
qed

text \<open>
  C30: log timestamps are exact.  The time attribute of a log line is replaced by a text from which
  the instant can be read back to the microsecond, whatever the zone of the machine, for every
  instant whose civil year there is between 0 and 9999 and every zone of whole minutes; every other
  attribute is left alone.
\<close>

theorem log_timestamps_exact:
  assumes "civil_of_days ((t div Second + off) div 86400 + epoch_days) = (y, m, d)" and "0 \<le> y" and "y \<le> 9999"
    and "60 dvd off" and "\<bar>off\<bar> < 360000" and "k \<noteq> ''time''"
  shows "(\<exists>s. replaceTimeAttr groups \<lparr>a_Key = ''time'', a_Value = TimeValue off t\<rparr> = Inr \<lparr>a_Key = ''time'', a_Value = StringValue s\<rparr> \<and>
       read_stamp s = t - t mod 1000) \<and>
     replaceTimeAttr groups \<lparr>a_Key = k, a_Value = v\<rparr> = Inr \<lparr>a_Key = k, a_Value = v\<rparr>"
  using read_stamp_Format [OF assms(1-5)] assms(6) by (simp add: replaceTimeAttr_def)

text \<open>The 29th of February 2024, 23:30:15.123456789 in a zone five and a half hours east.\<close>

theorem log_timestamps_exact_witness:
  "Format 19800 1709229615123456789 = ''2024-02-29T23:30:15.123456+05:30'' \<and>
   (\<exists>s. replaceTimeAttr [] \<lparr>a_Key = ''time'', a_Value = TimeValue 19800 1709229615123456789\<rparr> =
          Inr \<lparr>a_Key = ''time'', a_Value = StringValue s\<rparr> \<and> read_stamp s = 1709229615123456000) \<and>
   replaceTimeAttr [] \<lparr>a_Key = ''msg'', a_Value = StringValue ''x''\<rparr> = Inr \<lparr>a_Key = ''msg'', a_Value = StringValue ''x''\<rparr>"
proof -
  have civil: "civil_of_days ((1709229615123456789 div Second + 19800) div 86400 + epoch_days) = (2024, 2, 29)" by code_simp
  have "(0 :: int) \<le> 2024" "(2024 :: int) \<le> 9999" "(60 :: int) dvd 19800" "\<bar>19800 :: int\<bar> < 360000" "''msg'' \<noteq> ''time''"
    by simp_all
  note stamp = log_timestamps_exact [OF civil this, of "[]" "StringValue ''x''"]
  have micros: "(1709229615123456789 :: int) - 1709229615123456789 mod 1000 = 1709229615123456000" by simp
  have "Format 19800 1709229615123456789 = ''2024-02-29T23:30:15.123456+05:30''"
    unfolding Format_def Let_def civil
    by (simp add: Second_def zone_suffix_def go_div_def pad_def dec_nat.simps digit_char_def Let_def)
  then show ?thesis using stamp unfolding micros by (rule conjI)
qed

end
