(* ===== verification/Connectivity.thy ===== *)
theory Connectivity
  imports Libp2p_Env
begin

text \<open>
  \<^verbatim>\<open>node/connectivity.go\<close>: counting connected peers by transport and reporting the counts as gauges.
\<close>

definition isQUICConn :: "string \<Rightarrow> bool" where
  "isQUICConn addr = str_contains addr ''/udp/''"

fun count_peers :: "host_net \<Rightarrow> peer_id list \<Rightarrow> int \<times> int \<Rightarrow> int \<times> int" where
  "count_peers h [] qt = qt"
| "count_peers h (p # ps) (quic, tcp) =
     (let conns = net_conns h p in
      if length conns = 0 then count_peers h ps (quic, tcp)
      else if list_ex isQUICConn conns then count_peers h ps (quic + 1, tcp)
      else count_peers h ps (quic, tcp + 1))"

definition CountPeersByTransport :: "host_net \<Rightarrow> int \<times> int" where
  "CountPeersByTransport h = count_peers h (net_peers h) (0, 0)"

record conn_gauges =
  ConnectedPeers :: int
  QUICPeers :: int
  TCPPeers :: int

text \<open>One turn of the \<^verbatim>\<open>select\<close>: the context is done, or the ticker fires while the host is in a state.\<close>

datatype conn_in = ConnCtxDone | ConnTick host_net

fun ReportConnectivity :: "conn_gauges \<Rightarrow> conn_in list \<Rightarrow> conn_gauges" where
  "ReportConnectivity m [] = m"
| "ReportConnectivity m (ConnCtxDone # evs) = m"
| "ReportConnectivity m (ConnTick h # evs) =
     (let (quic, tcp) = CountPeersByTransport h; total = quic + tcp
      in ReportConnectivity (m\<lparr>ConnectedPeers := total, QUICPeers := quic, TCPPeers := tcp\<rparr>) evs)"

lemma count_peers_eq:
  "count_peers h ps (q, t) =
     (q + int (length (filter (\<lambda>p. list_ex isQUICConn (net_conns h p)) ps)),
      t + int (length (filter (\<lambda>p. net_conns h p \<noteq> [] \<and> \<not> list_ex isQUICConn (net_conns h p)) ps)))"
  by (induction ps arbitrary: q t) (auto simp: Let_def)

lemma length_filter_partition:
  "length (filter P xs) + length (filter (\<lambda>x. Q x \<and> \<not> P x) xs) = length (filter Q xs)"
  if "\<And>x. P x \<Longrightarrow> Q x"
  by (induction xs) (auto dest: that)

text \<open>
  The transport counts partition the peers.  The QUIC count is the number of peers with some
  connection over UDP, the TCP count is the number of the other peers that still have a connection,
  and the reported total is the number of peers with a connection.
\<close>

lemma transport_counts_partition:
  "CountPeersByTransport h =
     (int (length (filter (\<lambda>p. \<exists>c \<in> set (net_conns h p). sublist ''/udp/'' c) (net_peers h))),
      int (length (filter (\<lambda>p. net_conns h p \<noteq> [] \<and> \<not> (\<exists>c \<in> set (net_conns h p). sublist ''/udp/'' c)) (net_peers h)))) \<and>
   ConnectedPeers (ReportConnectivity m [ConnTick h]) =
     int (length (filter (\<lambda>p. net_conns h p \<noteq> []) (net_peers h)))"
proof -
  have q: "list_ex isQUICConn cs \<longleftrightarrow> (\<exists>c \<in> set cs. sublist ''/udp/'' c)" for cs
    by (simp add: list_ex_iff isQUICConn_def str_contains_iff)
  have "length (filter (\<lambda>p. list_ex isQUICConn (net_conns h p)) (net_peers h)) +
      length (filter (\<lambda>p. net_conns h p \<noteq> [] \<and> \<not> list_ex isQUICConn (net_conns h p)) (net_peers h)) =
      length (filter (\<lambda>p. net_conns h p \<noteq> []) (net_peers h))"
    by (rule length_filter_partition) auto
  then show ?thesis
    by (simp add: CountPeersByTransport_def count_peers_eq q Let_def flip: of_nat_add)
qed

end
