(* ===== verification/Gossip_Sub.thy ===== *)
theory Gossip_Sub
  imports Complex_Main Go_Prelude
begin

text \<open>
  \<^verbatim>\<open>node/gossipsub.go\<close> and \<^verbatim>\<open>node/scoring.go\<close>: topics, mesh parameters, subscriptions and peer-score
  parameters.  The pubsub library is outside the repository: its operations on its own state are
  arguments.  Score parameters are Go floats; here they are real numbers, so statements about
  them hold up to rounding.
\<close>

section \<open>Scoring\<close>

definition decayToZero :: real where
  "decayToZero = 0.01"

definition maxInMeshScore :: int where
  "maxInMeshScore = 10"

definition maxFirstDeliveryScore :: int where
  "maxFirstDeliveryScore = 40"

text \<open>The two values read from Prysm's configuration.\<close>

record beacon_params =
  SecondsPerSlot :: int
  SlotsPerEpoch :: int

definition oneSlotDuration :: "beacon_params \<Rightarrow> duration" where
  "oneSlotDuration bp = wrap64 (SecondsPerSlot bp * Second)"

definition oneEpochDuration :: "beacon_params \<Rightarrow> duration" where
  "oneEpochDuration bp = wrap64 (SlotsPerEpoch bp * oneSlotDuration bp)"

text \<open>
  Integer division by a zero slot duration panics.  Fewer than one slot gives \<^verbatim>\<open>1/0\<close>, infinity in
  floating point, and \<^verbatim>\<open>math.Pow\<close> of a number below one with exponent infinity is zero.
\<close>

definition scoreDecay :: "beacon_params \<Rightarrow> duration \<Rightarrow> real res" where
  "scoreDecay bp totalDuration =
     (if oneSlotDuration bp = 0 then Inl DivideByZero
      else let numSlots = go_div totalDuration (oneSlotDuration bp)
           in Inr (if numSlots = 0 then 0 else decayToZero powr (1 / real_of_int numSlots)))"

definition scoreByWeight :: "real \<Rightarrow> real \<Rightarrow> real" where
  "scoreByWeight weight threshold =
     (let maxScore = real_of_int (maxInMeshScore + maxFirstDeliveryScore) * weight
      in maxScore / (weight * threshold * threshold))"

definition inMeshCap :: "beacon_params \<Rightarrow> real res" where
  "inMeshCap bp =
     (if oneSlotDuration bp = 0 then Inl DivideByZero
      else Inr (real_of_int (go_div (3600 * Second) (oneSlotDuration bp))))"

record TopicScoreParams =
  ts_SkipAtomicValidation :: bool
  TopicWeight :: real
  TimeInMeshWeight :: real
  TimeInMeshQuantum :: duration
  TimeInMeshCap :: real
  FirstMessageDeliveriesWeight :: real
  FirstMessageDeliveriesDecay :: real
  FirstMessageDeliveriesCap :: real
  MeshMessageDeliveriesWeight :: real
  MeshMessageDeliveriesDecay :: real
  MeshMessageDeliveriesCap :: real
  MeshMessageDeliveriesThreshold :: real
  MeshMessageDeliveriesWindow :: duration
  MeshMessageDeliveriesActivation :: duration
  MeshFailurePenaltyWeight :: real
  MeshFailurePenaltyDecay :: real
  InvalidMessageDeliveriesWeight :: real
  InvalidMessageDeliveriesDecay :: real

definition AttestationTopicScoreParams :: "beacon_params \<Rightarrow> TopicScoreParams res" where
  "AttestationTopicScoreParams bp =
     (let epochDuration = oneEpochDuration bp in
      res_bind (inMeshCap bp) (\<lambda>cap.
      res_bind (scoreDecay bp epochDuration) (\<lambda>decay1.
      res_bind (scoreDecay bp (wrap64 (4 * epochDuration))) (\<lambda>decay4.
        Inr \<lparr>ts_SkipAtomicValidation = True, TopicWeight = 1, TimeInMeshWeight = real_of_int maxInMeshScore / cap,
             TimeInMeshQuantum = oneSlotDuration bp, TimeInMeshCap = cap,
             FirstMessageDeliveriesWeight = 1, FirstMessageDeliveriesDecay = decay1,
             FirstMessageDeliveriesCap = real_of_int maxFirstDeliveryScore,
             MeshMessageDeliveriesWeight = - scoreByWeight 1 5, MeshMessageDeliveriesDecay = decay4,
             MeshMessageDeliveriesCap = 20, MeshMessageDeliveriesThreshold = 5,
             MeshMessageDeliveriesWindow = 2 * Second, MeshMessageDeliveriesActivation = epochDuration,
             MeshFailurePenaltyWeight = - scoreByWeight 1 5, MeshFailurePenaltyDecay = decay4,
             InvalidMessageDeliveriesWeight = 0, InvalidMessageDeliveriesDecay = 0\<rparr>))))"

record PeerScoreParams =
  ps_SkipAtomicValidation :: bool
  Topics :: "string \<rightharpoonup> TopicScoreParams"
  TopicScoreCap :: real
  AppSpecificScore :: "peer_id \<Rightarrow> real"
  AppSpecificWeight :: real
  IPColocationFactorWeight :: real
  IPColocationFactorThreshold :: int
  IPColocationFactorWhitelist :: "string list"
  BehaviourPenaltyWeight :: real
  BehaviourPenaltyThreshold :: real
  BehaviourPenaltyDecay :: real
  DecayInterval :: duration
  DecayToZero :: real
  RetainScore :: duration

record PeerScoreThresholds =
  GossipThreshold :: real
  PublishThreshold :: real
  GraylistThreshold :: real
  AcceptPXThreshold :: real
  OpportunisticGraftThreshold :: real

definition PeerScoreConfig ::
  "beacon_params \<Rightarrow> (string \<rightharpoonup> TopicScoreParams) \<Rightarrow> (PeerScoreParams \<times> PeerScoreThresholds) res" where
  "PeerScoreConfig bp topicScores =
     res_bind (scoreDecay bp (wrap64 (10 * oneEpochDuration bp))) (\<lambda>decay10.
       Inr (\<lparr>ps_SkipAtomicValidation = True, Topics = topicScores, TopicScoreCap = 32.72, AppSpecificScore = (\<lambda>_. 0), AppSpecificWeight = 1,
             IPColocationFactorWeight = 0, IPColocationFactorThreshold = 10, IPColocationFactorWhitelist = [],
             BehaviourPenaltyWeight = -15.92, BehaviourPenaltyThreshold = 6, BehaviourPenaltyDecay = decay10,
             DecayInterval = oneSlotDuration bp, DecayToZero = decayToZero,
             RetainScore = wrap64 (100 * oneEpochDuration bp)\<rparr>,
            \<lparr>GossipThreshold = -4000, PublishThreshold = -8000, GraylistThreshold = -16000,
             AcceptPXThreshold = 100, OpportunisticGraftThreshold = 5\<rparr>))"

section \<open>Topics\<close>

definition SubnetTopic :: "bytes \<Rightarrow> u64 \<Rightarrow> string" where
  "SubnetTopic forkDigest sid =
     ''/eth2/'' @ EncodeToString forkDigest @ ''/beacon_attestation_'' @ dec_u64 sid @ ''/ssz_snappy''"

definition BlockTopic :: "bytes \<Rightarrow> string" where
  "BlockTopic forkDigest = ''/eth2/'' @ EncodeToString forkDigest @ ''/beacon_block/ssz_snappy''"

section \<open>Mesh parameters\<close>

record GossipSubParams =
  gs_D :: int
  gs_Dlo :: int
  gs_Dhi :: int
  gs_Dlazy :: int
  gs_HeartbeatInterval :: duration
  gs_FanoutTTL :: duration
  gs_HistoryLength :: int
  gs_HistoryGossip :: int

definition gossipSubHeartbeatInterval :: duration where
  "gossipSubHeartbeatInterval = 700 * Millisecond"

definition gossip_params :: "GossipSubParams \<Rightarrow> int \<Rightarrow> GossipSubParams" where
  "gossip_params defaults d =
     defaults\<lparr>gs_D := d, gs_Dlo := max (wrap64 (d - 2)) 1, gs_Dhi := wrap64 (d + go_div d 2), gs_Dlazy := 6,
       gs_HeartbeatInterval := gossipSubHeartbeatInterval, gs_FanoutTTL := 60 * Second,
       gs_HistoryLength := 6, gs_HistoryGossip := 3\<rparr>"

fun topic_scores :: "bytes \<Rightarrow> TopicScoreParams \<Rightarrow> (string \<rightharpoonup> TopicScoreParams) \<Rightarrow> u64 list \<Rightarrow> (string \<rightharpoonup> TopicScoreParams)" where
  "topic_scores forkDigest tsp m [] = m"
| "topic_scores forkDigest tsp m (sid # ids) = topic_scores forkDigest tsp (m(SubnetTopic forkDigest sid \<mapsto> tsp)) ids"

text \<open>What \<^verbatim>\<open>NewGossipSub\<close> passes to the library, as far as the program computes it.\<close>

datatype pubsub_option =
    WithPeerScore PeerScoreParams PeerScoreThresholds
  | WithGossipSubParams GossipSubParams
  | WithMessageIdFn bytes
  | WithStrictNoSign
  | WithMaxMessageSize u64
  | WithValidateQueueSize int
  | WithPrometheusTracer string
  | WithRPCLogger
  | WithDisableIHaveGossip bool

definition gossip_options ::
  "beacon_params \<Rightarrow> GossipSubParams \<Rightarrow> u64 \<Rightarrow> bytes \<Rightarrow> int \<Rightarrow> bool \<Rightarrow> bytes \<Rightarrow> u64 list \<Rightarrow> string \<Rightarrow> pubsub_option list res" where
  "gossip_options bp defaults maxPayload genesisValRoot d disableIHave forkDigest subnetIDs gossipLogFile =
     res_bind (if subnetIDs = [] then Inr Map.empty
               else res_bind (AttestationTopicScoreParams bp) (\<lambda>tsp. Inr (topic_scores forkDigest tsp Map.empty subnetIDs))) (\<lambda>topicScores.
     res_bind (PeerScoreConfig bp topicScores) (\<lambda>(scoreParams, scoreThresholds).
       Inr ([WithPeerScore scoreParams scoreThresholds, WithGossipSubParams (gossip_params defaults d),
             WithMessageIdFn genesisValRoot, WithStrictNoSign, WithMaxMessageSize maxPayload,
             WithValidateQueueSize 256, WithPrometheusTracer gossipLogFile, WithRPCLogger] @
            (if disableIHave then [WithDisableIHaveGossip True] else []))))"

section \<open>Subscriptions\<close>

datatype sub_error = RegisterFailed u64 | JoinFailed u64 | SubscribeFailed u64

record ('t, 's) Subscription =
  su_SubnetID :: u64
  su_Topic :: 't
  su_Sub :: 's

text \<open>The three calls of the library on its state \<open>ps\<close>; \<open>None\<close> is an error, which leaves the state as it is.\<close>

fun subscribe_loop ::
  "('ps \<Rightarrow> string \<Rightarrow> 'ps option) \<Rightarrow> ('ps \<Rightarrow> string \<Rightarrow> ('t \<times> 'ps) option) \<Rightarrow> ('ps \<Rightarrow> 't \<Rightarrow> ('s \<times> 'ps) option) \<Rightarrow>
   bytes \<Rightarrow> ('t, 's) Subscription list \<Rightarrow> 'ps \<Rightarrow> u64 list \<Rightarrow> (sub_error + ('t, 's) Subscription list) \<times> 'ps" where
  "subscribe_loop reg join subscr forkDigest subs ps [] = (Inr subs, ps)"
| "subscribe_loop reg join subscr forkDigest subs ps (sid # ids) =
     (let topicStr = SubnetTopic forkDigest sid in
      case reg ps topicStr of
        None \<Rightarrow> (Inl (RegisterFailed sid), ps)
      | Some ps1 \<Rightarrow>
         (case join ps1 topicStr of
            None \<Rightarrow> (Inl (JoinFailed sid), ps1)
          | Some (topic, ps2) \<Rightarrow>
             (case subscr ps2 topic of
                None \<Rightarrow> (Inl (SubscribeFailed sid), ps2)
              | Some (sub, ps3) \<Rightarrow>
                  subscribe_loop reg join subscr forkDigest
                    (subs @ [\<lparr>su_SubnetID = sid, su_Topic = topic, su_Sub = sub\<rparr>]) ps3 ids)))"

definition SubscribeSubnets ::
  "('ps \<Rightarrow> string \<Rightarrow> 'ps option) \<Rightarrow> ('ps \<Rightarrow> string \<Rightarrow> ('t \<times> 'ps) option) \<Rightarrow> ('ps \<Rightarrow> 't \<Rightarrow> ('s \<times> 'ps) option) \<Rightarrow>
   bytes \<Rightarrow> 'ps \<Rightarrow> u64 list \<Rightarrow> (sub_error + ('t, 's) Subscription list) \<times> 'ps" where
  "SubscribeSubnets reg join subscr forkDigest ps subnetIDs = subscribe_loop reg join subscr forkDigest [] ps subnetIDs"

datatype block_sub_error = BlockRegisterFailed | BlockJoinFailed | BlockSubscribeFailed

definition SubscribeBlocks ::
  "('ps \<Rightarrow> string \<Rightarrow> 'ps option) \<Rightarrow> ('ps \<Rightarrow> string \<Rightarrow> ('t \<times> 'ps) option) \<Rightarrow> ('ps \<Rightarrow> 't \<Rightarrow> ('s \<times> 'ps) option) \<Rightarrow>
   bytes \<Rightarrow> 'ps \<Rightarrow> (block_sub_error + 's) \<times> 'ps" where
  "SubscribeBlocks reg join subscr forkDigest ps =
     (let topicStr = BlockTopic forkDigest in
      case reg ps topicStr of
        None \<Rightarrow> (Inl BlockRegisterFailed, ps)
      | Some ps1 \<Rightarrow>
         (case join ps1 topicStr of
            None \<Rightarrow> (Inl BlockJoinFailed, ps1)
          | Some (topic, ps2) \<Rightarrow>
             (case subscr ps2 topic of
                None \<Rightarrow> (Inl BlockSubscribeFailed, ps2)
              | Some (sub, ps3) \<Rightarrow> (Inr sub, ps3))))"

section \<open>Lemmas\<close>

lemma SubnetTopic_inject:
  assumes "length fd = length fd'"
  shows "SubnetTopic fd a = SubnetTopic fd' b \<longleftrightarrow> fd = fd' \<and> a = b"
  using assms by (auto simp: SubnetTopic_def append_eq_append_conv)

lemma SubnetTopic_BlockTopic: "length fd = length fd' \<Longrightarrow> SubnetTopic fd a \<noteq> BlockTopic fd'"
  by (auto simp: SubnetTopic_def BlockTopic_def append_eq_append_conv)

section \<open>Properties\<close>

text \<open>
  Decay reaches its target.  A counter that decays once per slot by the computed factor has
  shrunk to one hundredth after the given duration, and the factor is strictly between 0 and 1, for
  every duration of at least one slot.
\<close>

lemma scoreDecay_reaches_target:
  assumes "0 < oneSlotDuration bp" and "oneSlotDuration bp \<le> dur"
  shows "\<exists>d. scoreDecay bp dur = Inr d \<and> 0 < d \<and> d < 1 \<and> d ^ nat (dur div oneSlotDuration bp) = 1 / 100"
proof -
  let ?n = "dur div oneSlotDuration bp"
  have n: "0 < ?n" using assms by (simp add: pos_imp_zdiv_pos_iff)
  then have div: "go_div dur (oneSlotDuration bp) = ?n" using assms by (intro go_div_nonneg) simp_all
  let ?d = "decayToZero powr (1 / real_of_int ?n)"
  have "scoreDecay bp dur = Inr ?d" using n assms by (simp add: scoreDecay_def div Let_def)
  moreover have "0 < ?d" by (simp add: decayToZero_def)
  moreover have "?d < 1"
    using n powr_less_mono2 [of "1 / real_of_int ?n" decayToZero 1] by (simp add: decayToZero_def)
  moreover have "?d ^ nat ?n = 1 / 100"
  proof -
    have "?d ^ nat ?n = ?d powr real (nat ?n)" by (rule powr_realpow [symmetric]) (simp add: decayToZero_def)
    also have "\<dots> = decayToZero" using n by (simp add: powr_powr decayToZero_def)
    finally show ?thesis by (simp add: decayToZero_def)
  qed
  ultimately show ?thesis by blast
qed

definition mainnet_params :: beacon_params where
  "mainnet_params = \<lparr>SecondsPerSlot = 12, SlotsPerEpoch = 32\<rparr>"

lemma mainnet_durations:
  "oneSlotDuration mainnet_params = 12 * Second" "oneEpochDuration mainnet_params = 384 * Second"
  by (simp_all add: oneSlotDuration_def oneEpochDuration_def mainnet_params_def Second_def wrap64_def)

lemma scoreDecay_reaches_target_example:
  "\<exists>d. scoreDecay mainnet_params (oneEpochDuration mainnet_params) = Inr d \<and> 0 < d \<and> d < 1 \<and>
     d ^ nat (oneEpochDuration mainnet_params div oneSlotDuration mainnet_params) = 1 / 100"
  by (rule scoreDecay_reaches_target) (simp_all add: mainnet_durations Second_def)

text \<open>
  Rewards and penalties balance.  Whenever the topic parameters can be computed with a cap other
  than zero, the largest reward for time in the mesh is 10, and the penalty for delivering nothing
  (a deficit of the whole threshold) cancels exactly the largest rewards for mesh time and first
  deliveries together.
\<close>

lemma attestation_scores_balance:
  assumes "AttestationTopicScoreParams bp = Inr p" and "TimeInMeshCap p \<noteq> 0"
  shows "TimeInMeshWeight p * TimeInMeshCap p = 10 \<and>
     TimeInMeshWeight p * TimeInMeshCap p + FirstMessageDeliveriesWeight p * FirstMessageDeliveriesCap p +
       MeshMessageDeliveriesWeight p * (MeshMessageDeliveriesThreshold p)\<^sup>2 = 0"
  using assms
  by (auto simp: AttestationTopicScoreParams_def Let_def res_bind_Inr_iff scoreByWeight_def maxInMeshScore_def
      maxFirstDeliveryScore_def power2_eq_square)

lemma mainnet_topic_params:
  "\<exists>p. AttestationTopicScoreParams mainnet_params = Inr p \<and> TimeInMeshCap p = 300"
  by (simp add: AttestationTopicScoreParams_def inMeshCap_def scoreDecay_def mainnet_durations Second_def go_div_def Let_def)

lemma attestation_scores_balance_example:
  "\<exists>p. AttestationTopicScoreParams mainnet_params = Inr p \<and> TimeInMeshWeight p * TimeInMeshCap p = 10"
proof -
  obtain p where p: "AttestationTopicScoreParams mainnet_params = Inr p" "TimeInMeshCap p = 300"
    using mainnet_topic_params by blast
  with attestation_scores_balance [OF p(1)] show ?thesis by auto
qed

text \<open>
  The mesh bounds are ordered.  For every mesh degree validation lets through that does not
  overflow, the lower bound is positive, at most the degree, and the degree is at most the upper
  bound.
\<close>

lemma mesh_bounds_ordered:
  assumes "0 < d" and "d \<le> 2 ^ 62"
  shows "1 \<le> gs_Dlo (gossip_params defaults d) \<and>
     gs_Dlo (gossip_params defaults d) \<le> gs_D (gossip_params defaults d) \<and>
     gs_D (gossip_params defaults d) \<le> gs_Dhi (gossip_params defaults d)"
proof -
  have "0 \<le> d div 2" and "d div 2 \<le> d" using assms by auto
  then have "in_int64 (d - 2)" and "in_int64 (d + d div 2)" using assms by (auto simp: in_int64_def)
  with assms show ?thesis by (simp add: gossip_params_def go_div_nonneg)
qed

definition demo_gossip_defaults :: GossipSubParams where
  "demo_gossip_defaults = \<lparr>gs_D = 6, gs_Dlo = 5, gs_Dhi = 12, gs_Dlazy = 6, gs_HeartbeatInterval = Second,
     gs_FanoutTTL = 60 * Second, gs_HistoryLength = 5, gs_HistoryGossip = 3\<rparr>"

lemma mesh_bounds_ordered_example:
  "1 \<le> gs_Dlo (gossip_params demo_gossip_defaults 8) \<and>
   gs_Dlo (gossip_params demo_gossip_defaults 8) \<le> gs_D (gossip_params demo_gossip_defaults 8) \<and>
   gs_D (gossip_params demo_gossip_defaults 8) \<le> gs_Dhi (gossip_params demo_gossip_defaults 8)"
  by (rule mesh_bounds_ordered) simp_all

lemma subscribe_loop_ok:
  fixes V J :: "'ps \<Rightarrow> string set"
  assumes reg: "\<And>ps t. reg ps t = None \<longleftrightarrow> t \<in> V ps"
    and reg_upd: "\<And>ps t ps'. reg ps t = Some ps' \<Longrightarrow> V ps' = insert t (V ps) \<and> J ps' = J ps"
    and join: "\<And>ps t. join ps t = None \<longleftrightarrow> t \<in> J ps"
    and join_upd: "\<And>ps t tp ps'. join ps t = Some (tp, ps') \<Longrightarrow> J ps' = insert t (J ps) \<and> V ps' = V ps"
    and sub: "\<And>ps tp. subscr ps tp \<noteq> None"
    and sub_upd: "\<And>ps tp s ps'. subscr ps tp = Some (s, ps') \<Longrightarrow> V ps' = V ps \<and> J ps' = J ps"
    and sync: "V ps = J ps"
  shows "(case fst (subscribe_loop reg join subscr fd subs ps ids) of
       Inr out \<Rightarrow> (distinct ids \<and> V ps \<inter> SubnetTopic fd ` set ids = {}) \<and> map su_SubnetID out = map su_SubnetID subs @ ids
     | Inl e \<Rightarrow> \<not> (distinct ids \<and> V ps \<inter> SubnetTopic fd ` set ids = {}))"
  using sync
proof (induction ids arbitrary: subs ps)
  case (Cons sid ids)
  let ?t = "SubnetTopic fd sid"
  show ?case
  proof (cases "?t \<in> V ps")
    case True
    then have "reg ps ?t = None" by (simp add: reg)
    with True show ?thesis by (simp add: Let_def)
  next
    case False
    then obtain ps1 where 1: "reg ps ?t = Some ps1" using reg by (cases "reg ps ?t") auto
    from reg_upd [OF 1] Cons.prems False obtain tp ps2 where 2: "join ps1 ?t = Some (tp, ps2)"
      using join [of ps1 ?t] by (cases "join ps1 ?t") auto
    obtain s ps3 where 3: "subscr ps2 tp = Some (s, ps3)" using sub [of ps2 tp] by auto
    from reg_upd [OF 1] join_upd [OF 2] sub_upd [OF 3] Cons.prems
    have v: "V ps3 = insert ?t (V ps)" and vj: "V ps3 = J ps3" by auto
    have loop: "subscribe_loop reg join subscr fd subs ps (sid # ids) =
        subscribe_loop reg join subscr fd (subs @ [\<lparr>su_SubnetID = sid, su_Topic = tp, su_Sub = s\<rparr>]) ps3 ids"
      by (simp add: Let_def 1 2 3)
    have dist: "distinct (sid # ids) \<and> V ps \<inter> SubnetTopic fd ` set (sid # ids) = {} \<longleftrightarrow>
        distinct ids \<and> V ps3 \<inter> SubnetTopic fd ` set ids = {}"
      using False by (auto simp: v SubnetTopic_inject)
    show ?thesis unfolding loop dist using Cons.IH [OF vj, of "subs @ [\<lparr>su_SubnetID = sid, su_Topic = tp, su_Sub = s\<rparr>]"]
      by (simp split: sum.splits)
  qed
qed simp

text \<open>
  C37: subscribing succeeds iff the subnets are distinct.  If the library refuses exactly a second
  validator and a second join for one topic and subscribes otherwise, then on a fresh instance
  \<^verbatim>\<open>SubscribeSubnets\<close> returns one subscription per configured subnet, in order, when they are
  distinct, and an error when one is listed twice (which validation does not reject).
\<close>

theorem SubscribeSubnets_iff_distinct:
  fixes V J :: "'ps \<Rightarrow> string set"
  assumes "\<And>ps t. reg ps t = None \<longleftrightarrow> t \<in> V ps"
    and "\<And>ps t ps'. reg ps t = Some ps' \<Longrightarrow> V ps' = insert t (V ps) \<and> J ps' = J ps"
    and "\<And>ps t. join ps t = None \<longleftrightarrow> t \<in> J ps"
    and "\<And>ps t tp ps'. join ps t = Some (tp, ps') \<Longrightarrow> J ps' = insert t (J ps) \<and> V ps' = V ps"
    and "\<And>ps tp. subscr ps tp \<noteq> None"
    and "\<And>ps tp s ps'. subscr ps tp = Some (s, ps') \<Longrightarrow> V ps' = V ps \<and> J ps' = J ps"
    and "V ps = {}" and "J ps = {}"
  shows "if distinct ids then (\<exists>out. fst (SubscribeSubnets reg join subscr fd ps ids) = Inr out \<and> map su_SubnetID out = ids)
         else (\<exists>e. fst (SubscribeSubnets reg join subscr fd ps ids) = Inl e)"
proof -
  have "V ps = J ps" using assms(7,8) by simp
  from subscribe_loop_ok [where V = V and J = J and reg = reg and join = join and subscr = subscr and
      fd = fd and subs = "[]" and ids = ids, OF assms(1-6) this]
  show ?thesis unfolding SubscribeSubnets_def
    by (cases "fst (subscribe_loop reg join subscr fd [] ps ids)") (simp_all add: assms(7))
qed

theorem SubscribeSubnets_iff_distinct_witness:
  "\<exists>e. fst (SubscribeSubnets (\<lambda>(v, j) t. if t \<in> v then None else Some (insert t v, j))
       (\<lambda>(v, j) t. if t \<in> j then None else Some (t, (v, insert t j))) (\<lambda>ps t. Some ((), ps))
       [1, 2, 3, 4] ({}, {}) [5, 9, 5]) = Inl e"
proof -
  have "if distinct [5, 9, 5::u64] then (\<exists>out. fst (SubscribeSubnets (\<lambda>(v, j) t. if t \<in> v then None else Some (insert t v, j))
       (\<lambda>(v, j) t. if t \<in> j then None else Some (t, (v, insert t j))) (\<lambda>ps t. Some ((), ps))
       [1, 2, 3, 4] ({}, {}) [5, 9, 5]) = Inr out \<and> map su_SubnetID out = [5, 9, 5])
     else (\<exists>e. fst (SubscribeSubnets (\<lambda>(v, j) t. if t \<in> v then None else Some (insert t v, j))
       (\<lambda>(v, j) t. if t \<in> j then None else Some (t, (v, insert t j))) (\<lambda>ps t. Some ((), ps))
       [1, 2, 3, 4] ({}, {}) [5, 9, 5]) = Inl e)"
    by (rule SubscribeSubnets_iff_distinct [where V = fst and J = snd]) (auto split: if_splits)
  then show ?thesis by simp
qed

end
