(* ===== verification/Spec2Isabelle.thy ===== *)
theory Spec2Isabelle
  imports Probe_System Main_Program Observation_System Crawl_System Bootstrap_Loop Rpc_Session Log_Time Connectivity Gossip_Sub
begin

text \<open>
  \<^bold>\<open>Verification of beaconprobe.\<close>

  \<^bold>\<open>The program.\<close>  beaconprobe is an Ethereum consensus-layer network probe written in Go.  In probe
  mode it runs several libp2p instances in one process, which must connect to disjoint sets of
  peers; discovery finds peers and hands them to a shared finder, each instance dials the peers
  it owns, gossipsub delivers attestations and blocks, and for every attestation the program logs
  how late it came relative to the block of its slot.  In crawl mode one instance walks the network
  and writes the records of the peers that answer to a file.

  \<^bold>\<open>Parts, theories and source files.\<close>  Definitions keep the names of the source; helpers that stand for
  one loop body or one branch are named after it.

  \<^item> \<open>Go_Prelude\<close>, \<open>Net_IP\<close>: panics as values, 64-bit integers, times, strings, hex, decimal, shuffling,
    \<^verbatim>\<open>net.IP\<close>; shared lemmas.  \<open>Libp2p_Env\<close>: what the program reads from a libp2p host.
  \<^item> \<open>Shared_Peer_Set\<close> (\<^verbatim>\<open>node/sharedpeerset.go\<close>): who owns a peer.  The locale \<open>peer_registry\<close> states the
    contract (ownership never changes, assignment always succeeds), interpreted as \<open>sps\<close>.
  \<^item> \<open>Peer_Finder\<close> (\<^verbatim>\<open>node/peerfinder.go\<close>): the peers found, per owner.  The locale \<open>peer_router\<close> is the Go
    interface \<^verbatim>\<open>PeerRouter\<close> with its laws, interpreted as \<open>pfr\<close> on the finder; \<open>Discovery\<close> proves its loops
    correct inside that locale.
  \<^item> \<open>Sibling_Gater\<close> (\<^verbatim>\<open>node/gater.go\<close>, \<^verbatim>\<open>node/inbound.go\<close>): the connection gater and the handler of
    connectedness events.
  \<^item> \<open>Peer_Manager\<close>, \<open>Dial_Loop\<close> (\<^verbatim>\<open>node/peermanager.go\<close>): back-off and candidates; \<^verbatim>\<open>Run\<close> with its goroutines as
    a step relation with one rule for each access to what they share: connected peers and the in-flight
    counter are read in two steps, the checks of a candidate are three steps.  \<open>Dial_Runs\<close>: runs of one manager,
    and the limits they keep.  \<open>Dial_Shutdown\<close>: the goroutines' bookkeeping for every
    peer cap, that it does not panic when printed IDs are long enough, and that the goroutines drain once \<^verbatim>\<open>Run\<close>
    has returned.
  \<^item> \<open>Instance_System\<close>: shared set, finder, gaters and inbound handlers of all instances together, as a
    step relation over the operations above.
  \<^item> \<open>Simulation\<close>: the locale \<open>simulation\<close> of forward simulation between step relations.  \<open>Ownership_Spec\<close>: the
    abstract machine of owners and connections, implemented by \<open>Instance_System\<close> (interpretation \<open>own\<close>).
    \<open>Probe_System\<close>: the managers of all instances with their goroutines over the shared parts, which
    refines \<open>Instance_System\<close> (\<open>pbs\<close>) and, seen from one instance, \<open>Dial_Loop\<close> (\<open>pbr\<close>).
  \<^item> \<open>Block_Tracker\<close> (\<^verbatim>\<open>node/block.go\<close>), \<open>Attestation\<close> (\<^verbatim>\<open>node/attestation.go\<close>): first arrivals of blocks, and
    attestations buffered per slot, flushed when the slot is over and logged; \<open>Attestation_Pipeline\<close>: the
    collectors of all subnets, the channel of capacity 4096 and the flusher as one step relation.
    \<open>Slot_Clock\<close>: the flusher's timer against a clock that behaves as documented.  \<open>Observation_System\<close>: the
    pipeline (\<open>obp\<close>), the block listener and the logging goroutines together, line by line.
  \<^item> \<open>User_Agent\<close> (\<^verbatim>\<open>node/useragent.go\<close>), \<open>Connectivity\<close> (\<^verbatim>\<open>node/connectivity.go\<close>), \<open>Metric_Registry\<close>
    (\<^verbatim>\<open>metrics/metrics.go\<close>): what is counted and reported.
  \<^item> \<open>Rpc\<close> (\<^verbatim>\<open>rpc/rpc.go\<close>): protocol handlers, status handshake, attestation-subnet bit vector.
    Messages are bytes, their encodings arguments, and every write may fail.  \<open>Rpc_Session\<close>: both sides of a
    stream, and the handshake of two probes.
  \<^item> \<open>Discovery\<close>, \<open>Discovery_Start\<close> (\<^verbatim>\<open>discovery/discovery.go\<close>): filters on node records, the discovery loop,
    the bootstrap file, the crawl file, and start-up with its error paths.  \<open>Bootstrap_Loop\<close> (\<^verbatim>\<open>main.go\<close>): the
    rounds over the bootstrap file.  \<open>Crawl_System\<close>: the discovery
    loops call by call, the finder, the crawl writer and connections of crawl mode as one step relation.
  \<^item> \<open>Gossip_Sub\<close> (\<^verbatim>\<open>node/gossipsub.go\<close>, \<^verbatim>\<open>node/scoring.go\<close>): topics, parameters, subscriptions, scores.
  \<^item> \<open>Config_File\<close> (\<^verbatim>\<open>config/config.go\<close>), \<open>Host_Keys\<close> (\<^verbatim>\<open>node/host.go\<close>), \<open>Startup\<close>, \<open>Main_Program\<close> and
    \<open>Log_Time\<close> (\<^verbatim>\<open>main.go\<close>): validation, key files, the wiring of both modes as lists of effects, \<^verbatim>\<open>main\<close>
    around them from the flag to the clean-up after a signal, and the time attribute of log lines.

  \<^bold>\<open>How code becomes definitions.\<close>  A struct is a record, a method a function that takes and returns the
  state it works on; methods under a mutex are atomic.  A \<^verbatim>\<open>select\<close> loop is a function over the list of
  things it receives, so a theorem about all lists covers every run; where goroutines share state
  (\<open>Dial_Loop\<close>, \<open>Instance_System\<close>, \<open>Probe_System\<close>, \<open>Attestation_Pipeline\<close>, \<open>Observation_System\<close>, \<open>Crawl_System\<close>) the steps of all of them form one relation and a theorem holds for every
  interleaving.  Errors and panics are values of sum types.  Go's map iteration order and random
  draws are arguments.  Prysm's slots and the ports are 64-bit words; counters that are bounded by
  the number of events are unbounded.  All loops are structural or have a termination proof, so no
  fuel is used anywhere.

  \<^bold>\<open>What is proved.\<close>  Ownership of a peer is permanent and balanced; in every reachable state no two
  instances are connected to one peer or dial one peer at the same time, and instances never connect to
  each other; the instances implement the ownership machine step by step.  Discovery and the
  bootstrap file hand the finder exactly the candidates that pass the filters; no found peer is lost,
  and the pull returns exactly what was asked for.  In every interleaving a manager keeps its limits on
  goroutines, and exceeds its limit on connected peers by no more than the dials in flight; a candidate is dialled
  exactly when it passes the three checks; back-off grows as documented; the dial goroutines terminate,
  and do not panic on IDs of the usual length.  No
  attestation is lost, duplicated or reordered, from the wire to the line in the log; every finished
  slot is flushed by the next tick and only finished slots are; counters and log lines are those of
  the attestations received, and a line names the first block of its slot.  In crawl mode every peer that was
  dialled is recorded, and a run records no peer twice.  The block tracker remembers the last 64 slots and stays bounded.  Counts of
  agents and transports are exact.  Validation accepts exactly the consistent configurations.  Keys,
  subnet bit vectors, digests and the timestamps of log lines survive their round trips.  Start-up has one crawler and one block
  listener; shutdown closes every host and every log once and leaves the rest to the end of the process.
  Two probes complete the status handshake when no write fails, and a completed handshake means that our whole
  status was sent and a status came back.

  \<^bold>\<open>What the proofs found.\<close>  \<open>one_outage_many_failures\<close>: dials in flight are offered again.
  \<open>soft_cap_overshoot\<close>: a dial that ends between the two readings is missed, and the host gets more than
  maxPeers + 20 peers.  \<open>restart_records_again\<close>: the crawl file has duplicates after a restart.
  \<open>stale_block_wipes_tracker\<close>: unsigned subtractions wrap around for a slot of the first two epochs.
  \<open>distinct_names_one_key_file\<close>: different names can share a key file.  \<open>SubscribeSubnets_iff_distinct\<close>: a
  subnet listed twice passes validation and stops the program.  \<open>arrival_delay_reference\<close>: the help text
  of the latency histogram names another reference time.  \<open>crawl_race_misses_connected_peer\<close>: a peer that
  connects while it is being registered is not recorded before its next connection.  \<open>status_v1_answered_as_v2\<close>: version 1 of the
  status message is never tried.

  \<^bold>\<open>What is not modelled.\<close>  The internals of libp2p, gossipsub, discv5, Prysm, YAML, SSZ, Prometheus and
  the cryptography: their operations are arguments, and what a theorem needs of them is a hypothesis,
  with a witness that satisfies it.  Of the slot clock this is \<open>slot_clock\<close>: a slot is current exactly from
  its start time on.  Logging to the console.  A signal before \<^verbatim>\<open>main\<close> waits for
  one.  Failing writes to the crawl file.  A stream deadline is a read or write that fails.  Floating-point rounding: score
  parameters are real numbers, and histograms keep the durations given to them.  What a peer manager
  sees of its host's connections is left free in \<open>Probe_System\<close>, which allows more runs than the program has.

  \<^bold>\<open>Plan.\<close>  Still to come: cancellation of the context in the pipeline and in
  the discovery loops; the view of a host's connections tied to the connections of \<open>Instance_System\<close>.
\<close>

end
